theory Spec2Isabelle
  imports Complex_Main "HOL-Library.Signed_Division"
begin

section \<open>The Monte Carlo integrator of \<^verbatim>\<open>modules/compute_integral.h\<close>\<close>

text \<open>
  The development embeds the class \<^verbatim>\<open>compute_integral\<close>: the two particle draws, the
  jackknife product-weight tables, the four nested sampling loops, and the reduction of a
  thread's accumulator into the shared one with its convergence counter.

  Conventions. \<^verbatim>\<open>Float\<close> and \<^verbatim>\<open>double\<close> are modelled by \<^typ>\<open>real\<close>: statements about
  probabilities are statements about the expressions the code evaluates, not about their
  rounding. C \<^verbatim>\<open>int\<close> is \<^typ>\<open>int\<close>, with the 32-bit wrap-around written out where a
  product can leave the range. Arrays are functions from their index. The build flags
  \<^verbatim>\<open>LEGENDRE\<close>, \<^verbatim>\<open>POWER\<close>, \<^verbatim>\<open>JACKKNIFE\<close> and \<^verbatim>\<open>PERIODIC\<close> are booleans of the
  environment. Progress and timing output is not modelled.
\<close>

subsection \<open>Vectors, particles, cells and grids\<close>

type_synonym integer3 = "int \<times> int \<times> int"
type_synonym Float3 = "real \<times> real \<times> real"

definition add_integer3 :: "integer3 \<Rightarrow> integer3 \<Rightarrow> integer3" where
  "add_integer3 a b =
     (case a of (ax, ay, az) \<Rightarrow> case b of (bx, by, bz) \<Rightarrow> (ax + bx, ay + by, az + bz))"

definition add_Float3 :: "Float3 \<Rightarrow> Float3 \<Rightarrow> Float3" where
  "add_Float3 a b =
     (case a of (ax, ay, az) \<Rightarrow> case b of (bx, by, bz) \<Rightarrow> (ax + bx, ay + by, az + bz))"

definition Float3_of_integer3 :: "integer3 \<Rightarrow> Float3" where
  "Float3_of_integer3 a = (case a of (ax, ay, az) \<Rightarrow> (real_of_int ax, real_of_int ay, real_of_int az))"

text \<open>
  Modelled from the spec: the structure \<^verbatim>\<open>Particle\<close> is declared outside this file; the
  spec gives it a position, a weight and a tracer-class tag.
\<close>

record Particle =
  pos :: Float3
  w :: real
  rand_class :: int

text \<open>
  Modelled from the spec: the structure \<^verbatim>\<open>Cell\<close> is declared outside this file; the
  code reads its members \<^verbatim>\<open>start\<close>, \<^verbatim>\<open>np\<close>, \<^verbatim>\<open>np1\<close> and \<^verbatim>\<open>np2\<close> as \<^verbatim>\<open>int\<close>.
\<close>

record Cell =
  start :: int
  np :: int
  np1 :: int
  np2 :: int

text \<open>
  Modelled from the spec: the class \<^verbatim>\<open>Grid\<close> is declared outside this file. Its arrays
  \<^verbatim>\<open>c\<close>, \<^verbatim>\<open>p\<close> and \<^verbatim>\<open>filled\<close> and its methods \<^verbatim>\<open>test_cell\<close>, \<^verbatim>\<open>cell_id_from_1d\<close> and
  \<^verbatim>\<open>cell_sep\<close> are fields here. The members \<^verbatim>\<open>c\<close>, \<^verbatim>\<open>p\<close>, \<^verbatim>\<open>np\<close>, \<^verbatim>\<open>np1\<close>, \<^verbatim>\<open>np2\<close>
  and \<^verbatim>\<open>norm\<close> carry the prefix \<open>grid_\<close>.
\<close>

record Grid =
  grid_c :: "int \<Rightarrow> Cell"
  grid_p :: "int \<Rightarrow> Particle"
  filled :: "int \<Rightarrow> int"
  nf :: int
  grid_np :: int
  grid_np1 :: int
  grid_np2 :: int
  maxnp :: int
  grid_norm :: real
  test_cell :: "integer3 \<Rightarrow> int"
  cell_id_from_1d :: "int \<Rightarrow> integer3"
  cell_sep :: "integer3 \<Rightarrow> Float3"

subsection \<open>\<^verbatim>\<open>particle_list\<close>\<close>

text \<open>
  The loop copies the particles \<^verbatim>\<open>cell.start\<close>, ..., \<^verbatim>\<open>cell.start + cell.np - 1\<close> and
  their indices; the result is the copied lists and their number.
\<close>

definition particle_list :: "int \<Rightarrow> Grid \<Rightarrow> int \<times> Particle list \<times> int list" where
  "particle_list id_1D grid =
     (let cell = grid_c grid id_1D;
          ids = [start cell .. start cell + np cell - 1]
      in (int (length ids), map (grid_p grid) ids, ids))"

subsection \<open>\<^verbatim>\<open>draw_particle\<close> and \<^verbatim>\<open>draw_particle_without_class\<close>\<close>

text \<open>
  The reference parameters \<^verbatim>\<open>particle\<close>, \<^verbatim>\<open>pid\<close>, \<^verbatim>\<open>n_particles\<close>, \<^verbatim>\<open>n_particles1\<close>,
  \<^verbatim>\<open>n_particles2\<close> are passed in with their current values and returned; the generator
  \<^verbatim>\<open>locrng\<close> is a state of type \<open>'r\<close> and \<^verbatim>\<open>gsl_rng_uniform\<close> a function on it. The first
  component of the result is the returned \<^verbatim>\<open>int\<close>.
\<close>

definition shift_particle :: "Particle \<Rightarrow> Float3 \<Rightarrow> Particle" where
  "shift_particle particle shift = particle\<lparr>pos := add_Float3 (pos particle) shift\<rparr>"

definition draw_particle ::
  "bool \<Rightarrow> ('r \<Rightarrow> real \<times> 'r) \<Rightarrow> integer3 \<Rightarrow> Float3 \<Rightarrow> Grid
     \<Rightarrow> Particle \<times> int \<times> int \<times> int \<times> int \<Rightarrow> 'r
     \<Rightarrow> int \<times> (Particle \<times> int \<times> int \<times> int \<times> int) \<times> 'r" where
  "draw_particle PERIODIC gsl_rng_uniform id_3D shift grid outs locrng =
     (let id_1D = test_cell grid id_3D
      in if id_1D < 0 then (1, outs, locrng)
         else let cell = grid_c grid id_1D
              in if np cell = 0 then (1, outs, locrng)
                 else let (u, locrng') = gsl_rng_uniform locrng;
                          pid = \<lfloor>u * real_of_int (np cell)\<rfloor> + start cell;
                          particle = grid_p grid pid;
                          particle' = (if PERIODIC then shift_particle particle shift else particle)
                      in (0, (particle', pid, np cell, np1 cell, np2 cell), locrng'))"

text \<open>
  \<^verbatim>\<open>draw_particle_without_class\<close> declares its \<^verbatim>\<open>shift\<close> as \<^verbatim>\<open>integer3\<close>; adding it to the
  position converts it back.
\<close>

definition draw_particle_without_class ::
  "bool \<Rightarrow> ('r \<Rightarrow> real \<times> 'r) \<Rightarrow> integer3 \<Rightarrow> integer3 \<Rightarrow> Grid
     \<Rightarrow> Particle \<times> int \<times> int \<Rightarrow> 'r
     \<Rightarrow> int \<times> (Particle \<times> int \<times> int) \<times> 'r" where
  "draw_particle_without_class PERIODIC gsl_rng_uniform id_3D shift grid outs locrng =
     (let id_1D = test_cell grid id_3D
      in if id_1D < 0 then (1, outs, locrng)
         else let cell = grid_c grid id_1D
              in if np cell = 0 then (1, outs, locrng)
                 else let (u, locrng') = gsl_rng_uniform locrng;
                          pid = \<lfloor>u * real_of_int (np cell)\<rfloor> + start cell;
                          particle = grid_p grid pid;
                          particle' = (if PERIODIC
                                       then shift_particle particle (Float3_of_integer3 shift)
                                       else particle)
                      in (0, (particle', pid, np cell), locrng'))"

subsection \<open>Machine arithmetic\<close>

text \<open>
  \<^verbatim>\<open>int\<close> products are taken in 32 bits and wrap around in two's complement; a value
  added to a \<^verbatim>\<open>uint64\<close> is first converted to it, and the sum is taken modulo \<open>2^64\<close>.
\<close>

definition int32 :: "int \<Rightarrow> int" where
  "int32 v = (v + 2 ^ 31) mod 2 ^ 32 - 2 ^ 31"

definition uint64 :: "int \<Rightarrow> nat" where
  "uint64 v = nat (v mod 2 ^ 64)"

definition add64 :: "nat \<Rightarrow> nat \<Rightarrow> nat" where
  "add64 a b = (a + b) mod 2 ^ 64"

subsection \<open>Random draws, parameters and the accumulator\<close>

text \<open>
  Modelled from the spec: the class \<^verbatim>\<open>RandomDraws\<close> is declared outside this file. Its two
  draws return a cell displacement, write the proposal ratio through their pointer argument
  and advance the generator.
\<close>

record 'r RandomDraws =
  random_cubedraw :: "'r \<Rightarrow> (integer3 \<times> real) \<times> 'r"
  random_xidraw :: "'r \<Rightarrow> (integer3 \<times> real) \<times> 'r"

text \<open>
  Modelled from the spec: the structure \<^verbatim>\<open>Parameters\<close> is declared outside this file. The
  members read here are compared with \<^verbatim>\<open>int\<close> loop counters and are taken as \<^verbatim>\<open>int\<close>.
\<close>

record Parameters =
  nbin :: int
  mbin :: int
  N2 :: int
  N3 :: int
  N4 :: int
  max_loops :: int
  nthread :: int
  multi_tracers :: bool
  power_norm :: real

text \<open>
  Modelled from the spec: the class \<^verbatim>\<open>Integrals\<close> is declared in \<^verbatim>\<open>integrals.h\<close> and its
  siblings, outside this file. The spec gives it flat arrays for C2, C3, C4, a parallel set
  for the jackknife, and the counts of accepted contributions.
\<close>

record Integrals =
  c2 :: "real list"
  c3 :: "real list"
  c4 :: "real list"
  c2j :: "real list"
  c3j :: "real list"
  c4j :: "real list"
  acc_cnt2 :: nat
  acc_cnt3 :: nat
  acc_cnt4 :: nat

definition sum_arrays :: "real list \<Rightarrow> real list \<Rightarrow> real list" where
  "sum_arrays a b = map2 (+) a b"

text \<open>
  Modelled from the spec: \<^verbatim>\<open>sum_ints(other)\<close> "adds other's arrays element-wise to this".
\<close>

definition sum_ints :: "Integrals \<Rightarrow> Integrals \<Rightarrow> Integrals" where
  "sum_ints this other =
     this\<lparr>c2 := sum_arrays (c2 this) (c2 other),
          c3 := sum_arrays (c3 this) (c3 other),
          c4 := sum_arrays (c4 this) (c4 other),
          c2j := sum_arrays (c2j this) (c2j other),
          c3j := sum_arrays (c3j this) (c3j other),
          c4j := sum_arrays (c4j this) (c4j other)\<rparr>"

text \<open>
  Modelled from the spec: \<^verbatim>\<open>reset()\<close> "zeros all arrays and counts".
\<close>

definition reset :: "Integrals \<Rightarrow> Integrals" where
  "reset this =
     \<lparr>c2 = map (\<lambda>v. 0) (c2 this), c3 = map (\<lambda>v. 0) (c3 this), c4 = map (\<lambda>v. 0) (c4 this),
      c2j = map (\<lambda>v. 0) (c2j this), c3j = map (\<lambda>v. 0) (c3j this), c4j = map (\<lambda>v. 0) (c4j this),
      acc_cnt2 = 0, acc_cnt3 = 0, acc_cnt4 = 0\<rparr>"

record frobs =
  frob_C2 :: real
  frob_C3 :: real
  frob_C4 :: real
  frob_C2j :: real
  frob_C3j :: real
  frob_C4j :: real

text \<open>
  Modelled from the spec: \<^verbatim>\<open>frobenius_difference_sum(local, n_loop, ...)\<close> "folds local
  into this, then reports the relative Frobenius norm" of the change of C2, C3, C4 and of
  their jackknife variants. The norms themselves are a parameter \<open>frob\<close> of the accumulator
  before the fold, the local accumulator and the loop number.
\<close>

definition frobenius_difference_sum ::
  "(Integrals \<Rightarrow> Integrals \<Rightarrow> int \<Rightarrow> frobs) \<Rightarrow> Integrals \<Rightarrow> Integrals \<Rightarrow> int
     \<Rightarrow> Integrals \<times> frobs" where
  "frobenius_difference_sum frob this local n_loop =
     (sum_ints this local, frob this local n_loop)"

subsection \<open>Kernel calls\<close>

text \<open>
  The kernels \<^verbatim>\<open>second\<close>, \<^verbatim>\<open>third\<close> and \<^verbatim>\<open>fourth\<close> of \<^verbatim>\<open>Integrals\<close> are outside this file.
  A call is recorded with the arguments the driver passes by value: the primary list, its
  indices and length, the drawn particles, their indices and the probability; the buffers
  \<^verbatim>\<open>bin_ij\<close>, \<^verbatim>\<open>w_ij\<close>, \<^verbatim>\<open>xi_ik\<close>, \<^verbatim>\<open>w_ijk\<close>, \<^verbatim>\<open>poly_ij\<close> and \<^verbatim>\<open>factor_ij\<close> that the kernels share
  are a state of type \<open>'s\<close>. \<^verbatim>\<open>second\<close> receives \<^verbatim>\<open>p21\<close> and \<^verbatim>\<open>p22\<close> only in the angular
  build.
\<close>

datatype kcall =
    Second "Particle list" "int list" int Particle int real "(real \<times> real) option"
  | Third "Particle list" "int list" int Particle Particle int int real
  | Fourth "Particle list" "int list" int Particle Particle Particle int int int real

subsection \<open>The thread's variables\<close>

text \<open>
  The variables a thread declares before its first loop. \<open>ratio2\<close>, \<open>ratio3\<close> and \<open>ratio4\<close>
  are history variables: they keep the proposal ratio as the draw returned it, which the
  code overwrites in place in \<^verbatim>\<open>p2\<close>, \<^verbatim>\<open>p3\<close> and \<^verbatim>\<open>p4\<close>.
\<close>

record locals =
  prim_list :: "Particle list"
  prim_ids :: "int list"
  pln :: int
  sln :: int
  tln :: int
  fln :: int
  sln1 :: int
  sln2 :: int
  pid_j :: int
  pid_k :: int
  pid_l :: int
  particle_j :: Particle
  particle_k :: Particle
  particle_l :: Particle
  p2 :: real
  p3 :: real
  p4 :: real
  p21 :: real
  p22 :: real
  prim_id :: integer3
  sec_id :: integer3
  cell_sep2 :: Float3
  ratio2 :: real
  ratio3 :: real
  ratio4 :: real

text \<open>
  The state a thread works on: its variables, generator and accumulator, the reduction
  variables of the parallel region, the members \<^verbatim>\<open>cnt2\<close>, \<^verbatim>\<open>cnt3\<close>, \<^verbatim>\<open>cnt4\<close> of the class,
  and the shared accumulator \<^verbatim>\<open>sumint\<close> as the thread finds it in its critical sections.
  \<open>calls\<close> is the history of kernel calls, each with the variables at the call; \<open>saved\<close>
  and \<open>saved_jackknife\<close> are the files written, by loop number.

  The counters \<^verbatim>\<open>cell_attempt\<close> and \<^verbatim>\<open>used_cell\<close> are \<^verbatim>\<open>uint64\<close> in the source and only ever
  incremented by one; they are modelled by the number of increments, of which the variable
  holds the remainder modulo \<open>2^64\<close>.
\<close>

record ('r, 's) thread =
  vars :: locals
  locrng :: 'r
  locint :: Integrals
  scratch :: 's
  sumint :: Integrals
  convergence_counter :: int
  printtime :: int
  cell_attempt2 :: nat
  cell_attempt3 :: nat
  cell_attempt4 :: nat
  used_cell2 :: nat
  used_cell3 :: nat
  used_cell4 :: nat
  loc_used_pairs :: nat
  loc_used_triples :: nat
  loc_used_quads :: nat
  tot_pairs :: nat
  tot_triples :: nat
  tot_quads :: nat
  cnt2 :: nat
  cnt3 :: nat
  cnt4 :: nat
  calls :: "(kcall \<times> locals) list"
  saved :: "(int \<times> Integrals) list"
  saved_jackknife :: "(int \<times> Integrals) list"

text \<open>
  What the constructor is given and what is compiled in. \<open>kernel\<close> stands for the three
  kernels, \<open>normalize\<close>, \<open>frobenius\<close> and \<open>sum_total_counts\<close> for the methods of \<^verbatim>\<open>Integrals\<close>
  of those names, \<open>Float3_to_integer3\<close> for the conversion at the calls of
  \<^verbatim>\<open>draw_particle_without_class\<close>, which pass a \<^verbatim>\<open>Float3\<close> for an \<^verbatim>\<open>integer3\<close>.
\<close>

record ('r, 's) env =
  grid1 :: Grid
  grid2 :: Grid
  grid3 :: Grid
  grid4 :: Grid
  rd13 :: "'r RandomDraws"
  rd24 :: "'r RandomDraws"
  par :: Parameters
  gsl_rng_uniform :: "'r \<Rightarrow> real \<times> 'r"
  gsl_rng_set :: "nat \<Rightarrow> 'r"
  LEGENDRE :: bool
  POWER :: bool
  JACKKNIFE :: bool
  PERIODIC :: bool
  kernel :: "kcall \<Rightarrow> 's \<times> Integrals \<Rightarrow> 's \<times> Integrals"
  normalize :: "real \<Rightarrow> real \<Rightarrow> real \<Rightarrow> real \<Rightarrow> real \<Rightarrow> real \<Rightarrow> real \<Rightarrow> real option
                  \<Rightarrow> Integrals \<Rightarrow> Integrals"
  frobenius :: "Integrals \<Rightarrow> Integrals \<Rightarrow> int \<Rightarrow> frobs"
  sum_total_counts :: "Integrals \<Rightarrow> nat \<times> nat \<times> nat \<Rightarrow> nat \<times> nat \<times> nat"
  Float3_to_integer3 :: "Float3 \<Rightarrow> integer3"

definition call_kernel :: "('r, 's) env \<Rightarrow> kcall \<Rightarrow> ('r, 's) thread \<Rightarrow> ('r, 's) thread" where
  "call_kernel E call s =
     (let (sc, li) = kernel E call (scratch s, locint s)
      in s\<lparr>scratch := sc, locint := li, calls := calls s @ [(call, vars s)]\<rparr>)"

subsection \<open>The loop over \<^verbatim>\<open>N4\<close> l cells\<close>

definition fourth_loop_body :: "('r, 's) env \<Rightarrow> ('r, 's) thread \<Rightarrow> ('r, 's) thread" where
  "fourth_loop_body E s =
     (let s1 = s\<lparr>cell_attempt4 := cell_attempt4 s + 1\<rparr>;
          L = vars s1;
          ((delta4, r), g1) = random_xidraw (rd24 E) (locrng s1);
          (x, (pl, pidl, n), g2) =
             draw_particle_without_class (PERIODIC E) (gsl_rng_uniform E)
               (add_integer3 (sec_id L) delta4)
               (Float3_to_integer3 E (add_Float3 (cell_sep2 L) (cell_sep (grid4 E) delta4)))
               (grid4 E) (particle_l L, pid_l L, fln L) g1;
          L1 = L\<lparr>p4 := r, ratio4 := r, particle_l := pl, pid_l := pidl, fln := n\<rparr>;
          s2 = s1\<lparr>vars := L1, locrng := g2\<rparr>
      in if x = 1 then s2
         else if pid_l L1 = pid_j L1 \<or> pid_l L1 = pid_k L1 then s2
         else let s3 = s2\<lparr>used_cell4 := used_cell4 s2 + 1\<rparr>;
                  L2 = L1\<lparr>p4 := p4 L1 * (p3 L1 / real_of_int (fln L1))\<rparr>
              in call_kernel E
                   (Fourth (prim_list L2) (prim_ids L2) (pln L2) (particle_j L2) (particle_k L2)
                      (particle_l L2) (pid_j L2) (pid_k L2) (pid_l L2) (p4 L2))
                   (s3\<lparr>vars := L2\<rparr>))"

definition fourth_loop :: "('r, 's) env \<Rightarrow> ('r, 's) thread \<Rightarrow> ('r, 's) thread" where
  "fourth_loop E s = fold (\<lambda>n4. fourth_loop_body E) [0 .. N4 (par E) - 1] s"

subsection \<open>The loop over \<^verbatim>\<open>N3\<close> k cells\<close>

definition third_loop_body :: "('r, 's) env \<Rightarrow> ('r, 's) thread \<Rightarrow> ('r, 's) thread" where
  "third_loop_body E s =
     (let s1 = s\<lparr>cell_attempt3 := cell_attempt3 s + 1\<rparr>;
          L = vars s1;
          ((delta3, r), g1) = random_xidraw (rd13 E) (locrng s1);
          (x, (pk, pidk, n), g2) =
             draw_particle_without_class (PERIODIC E) (gsl_rng_uniform E)
               (add_integer3 (prim_id L) delta3)
               (Float3_to_integer3 E (cell_sep (grid3 E) delta3))
               (grid3 E) (particle_k L, pid_k L, tln L) g1;
          L1 = L\<lparr>p3 := r, ratio3 := r, particle_k := pk, pid_k := pidk, tln := n\<rparr>;
          s2 = s1\<lparr>vars := L1, locrng := g2\<rparr>
      in if x = 1 then s2
         else if pid_j L1 = pid_k L1 then s2
         else let s3 = s2\<lparr>used_cell3 := used_cell3 s2 + 1\<rparr>;
                  L2 = L1\<lparr>p3 := p3 L1 * (p2 L1 / real_of_int (tln L1))\<rparr>
              in fourth_loop E
                   (call_kernel E
                      (Third (prim_list L2) (prim_ids L2) (pln L2) (particle_j L2) (particle_k L2)
                         (pid_j L2) (pid_k L2) (p3 L2))
                      (s3\<lparr>vars := L2\<rparr>)))"

definition third_loop :: "('r, 's) env \<Rightarrow> ('r, 's) thread \<Rightarrow> ('r, 's) thread" where
  "third_loop E s = fold (\<lambda>n3. third_loop_body E) [0 .. N3 (par E) - 1] s"

subsection \<open>The loop over \<^verbatim>\<open>N2\<close> j cells\<close>

definition second_loop_body :: "('r, 's) env \<Rightarrow> ('r, 's) thread \<Rightarrow> ('r, 's) thread" where
  "second_loop_body E s =
     (let s1 = s\<lparr>cell_attempt2 := cell_attempt2 s + 1\<rparr>;
          L = vars s1;
          ((delta2, r), g1) = random_cubedraw (rd13 E) (locrng s1);
          sec = add_integer3 (prim_id L) delta2;
          sep2 = cell_sep (grid2 E) delta2;
          (x, (pj, pidj, n, n1, n2), g2) =
             draw_particle (PERIODIC E) (gsl_rng_uniform E) sec sep2 (grid2 E)
               (particle_j L, pid_j L, sln L, sln1 L, sln2 L) g1;
          L1 = L\<lparr>p2 := r, ratio2 := r, sec_id := sec, cell_sep2 := sep2,
                 particle_j := pj, pid_j := pidj, sln := n, sln1 := n1, sln2 := n2\<rparr>;
          s2 = s1\<lparr>vars := L1, locrng := g2\<rparr>
      in if x = 1 then s2
         else let s3 = s2\<lparr>used_cell2 := used_cell2 s2 + 1\<rparr>;
                  angular = (\<not> LEGENDRE E \<and> \<not> POWER E);
                  L2 = (if angular
                        then L1\<lparr>p21 := p2 L1 / (real_of_int (grid_np1 (grid1 E)) * real_of_int (sln1 L1)),
                                p22 := p2 L1 / (real_of_int (grid_np2 (grid1 E)) * real_of_int (sln2 L1))\<rparr>
                        else L1);
                  L3 = L2\<lparr>p2 := p2 L2 * (1 / (real_of_int (grid_np (grid1 E)) * real_of_int (sln L2)))\<rparr>
              in third_loop E
                   (call_kernel E
                      (Second (prim_list L3) (prim_ids L3) (pln L3) (particle_j L3) (pid_j L3) (p2 L3)
                         (if angular then Some (p21 L3, p22 L3) else None))
                      (s3\<lparr>vars := L3\<rparr>)))"

definition second_loop :: "('r, 's) env \<Rightarrow> ('r, 's) thread \<Rightarrow> ('r, 's) thread" where
  "second_loop E s = fold (\<lambda>n2. second_loop_body E) [0 .. N2 (par E) - 1] s"

subsection \<open>The loop over the filled i cells\<close>

text \<open>
  The increments of the local sample counts are products of \<^verbatim>\<open>int\<close>s, evaluated from the
  left in \<^verbatim>\<open>int\<close> and then converted to \<^verbatim>\<open>uint64\<close>.
\<close>

definition cell_loop_body :: "('r, 's) env \<Rightarrow> int \<Rightarrow> ('r, 's) thread \<Rightarrow> ('r, 's) thread" where
  "cell_loop_body E n1 s =
     (let prim_id_1D = filled (grid1 E) n1;
          prim = cell_id_from_1d (grid1 E) prim_id_1D;
          (n, plist, ids) = particle_list prim_id_1D (grid1 E);
          s1 = s\<lparr>vars := (vars s)\<lparr>prim_id := prim, pln := n, prim_list := plist, prim_ids := ids\<rparr>\<rparr>
      in if n = 0 then s1
         else let pairs = int32 (n * N2 (par E));
                  triples = int32 (pairs * N3 (par E));
                  quads = int32 (triples * N4 (par E))
              in second_loop E
                   (s1\<lparr>loc_used_pairs := add64 (loc_used_pairs s1) (uint64 pairs),
                       loc_used_triples := add64 (loc_used_triples s1) (uint64 triples),
                       loc_used_quads := add64 (loc_used_quads s1) (uint64 quads)\<rparr>))"

definition cell_loop :: "('r, 's) env \<Rightarrow> ('r, 's) thread \<Rightarrow> ('r, 's) thread" where
  "cell_loop E s = fold (cell_loop_body E) [0 .. nf (grid1 E) - 1] s"

subsection \<open>The critical section\<close>

datatype error = DivisionByZero

text \<open>
  The remainder \<^verbatim>\<open>(n_loops+1)%par->nthread\<close> truncates towards zero and traps on a zero
  divisor.
\<close>

definition critical_section ::
  "('r, 's) env \<Rightarrow> int \<Rightarrow> ('r, 's) thread \<Rightarrow> error + ('r, 's) thread" where
  "critical_section E n_loops s =
     (if nthread (par E) = 0 then Inl DivisionByZero
      else
        let s1 = (if (n_loops + 1) smod nthread (par E) = 0
                  then let (sm, fr) = frobenius_difference_sum (frobenius E) (sumint s) (locint s) n_loops;
                           s' = s\<lparr>sumint := sm\<rparr>
                       in if \<not> JACKKNIFE E
                          then (if frob_C4 fr < 0.01
                                then s'\<lparr>convergence_counter := convergence_counter s' + 1\<rparr> else s')
                          else (if frob_C4 fr < 0.01 \<and> frob_C4j fr < 0.01
                                then s'\<lparr>convergence_counter := convergence_counter s' + 1\<rparr> else s')
                  else s);
            s2 = s1\<lparr>sumint := sum_ints (sumint s1) (locint s1)\<rparr>;
            li = normalize E (grid_norm (grid1 E)) (grid_norm (grid2 E)) (grid_norm (grid3 E))
                   (grid_norm (grid4 E)) (real (loc_used_pairs s2)) (real (loc_used_triples s2))
                   (real (loc_used_quads s2)) (if POWER E then Some (power_norm (par E)) else None)
                   (locint s2);
            s3 = s2\<lparr>locint := li, saved := saved s2 @ [(n_loops, li)]\<rparr>;
            s4 = (if JACKKNIFE E then s3\<lparr>saved_jackknife := saved_jackknife s3 @ [(n_loops, li)]\<rparr> else s3);
            (k2, k3, k4) = sum_total_counts E (locint s4) (cnt2 s4, cnt3 s4, cnt4 s4)
        in Inr (s4\<lparr>cnt2 := k2, cnt3 := k3, cnt4 := k4, locint := reset (locint s4)\<rparr>))"

subsection \<open>The outer loop\<close>

definition outer_loop_body ::
  "('r, 's) env \<Rightarrow> int \<Rightarrow> ('r, 's) thread \<Rightarrow> error + ('r, 's) thread" where
  "outer_loop_body E n_loops s =
     (let s0 = s\<lparr>loc_used_pairs := 0, loc_used_triples := 0, loc_used_quads := 0\<rparr>
      in if convergence_counter s0 = 10 then Inr (s0\<lparr>printtime := printtime s0 + 1\<rparr>)
         else let s1 = cell_loop E s0;
                  s2 = s1\<lparr>tot_pairs := add64 (tot_pairs s1) (loc_used_pairs s1),
                          tot_triples := add64 (tot_triples s1) (loc_used_triples s1),
                          tot_quads := add64 (tot_quads s1) (loc_used_quads s1)\<rparr>
              in critical_section E n_loops s2)"

text \<open>
  A thread runs the loop indices the schedule gives it, in order; an error ends the run.
  Without \<^verbatim>\<open>OPENMP\<close> the one thread runs \<open>0, ..., max_loops - 1\<close>.
\<close>

fun outer_loop ::
  "('r, 's) env \<Rightarrow> int list \<Rightarrow> ('r, 's) thread \<Rightarrow> error + ('r, 's) thread" where
  "outer_loop E [] s = Inr s"
| "outer_loop E (n_loops # ns) s =
     (case outer_loop_body E n_loops s of
        Inl e \<Rightarrow> Inl e
      | Inr s' \<Rightarrow> outer_loop E ns s')"

subsection \<open>The jackknife product weights\<close>

text \<open>
  Modelled from the spec: the class \<^verbatim>\<open>JK_weights\<close> is declared outside this file; the code
  reads its array \<^verbatim>\<open>weights\<close>, indexed by region and bin, its number of filled regions and
  its stored table \<^verbatim>\<open>product_weights\<close>.
\<close>

record JK_weights =
  weights :: "int \<Rightarrow> real"
  n_JK_filled :: int
  product_weights :: "int \<Rightarrow> real"

text \<open>
  The three nested loops that fill a table of products. \<open>table\<close> is the memory the loops
  add into; \<open>partial_bin\<close> and \<open>partial_bin2\<close> are carried along as in the code.
\<close>

definition product_weights_loop ::
  "int \<Rightarrow> JK_weights \<Rightarrow> JK_weights \<Rightarrow> (int \<Rightarrow> real) \<Rightarrow> int \<Rightarrow> real" where
  "product_weights_loop nbins JKa JKb table =
     fst (fold
       (\<lambda>x (tab, partial_bin).
          (fst (fold
             (\<lambda>bin_a (tab, partial_bin2).
                (let this_weight = weights JKa (partial_bin + bin_a)
                 in fold
                      (\<lambda>bin_b tab.
                         tab(partial_bin2 + bin_b :=
                               tab (partial_bin2 + bin_b)
                                 + this_weight * weights JKb (partial_bin + bin_b)))
                      [0 .. nbins - 1] tab,
                 partial_bin2 + nbins))
             [0 .. nbins - 1] (tab, 0)),
           partial_bin + nbins))
       [0 .. n_JK_filled JKa - 1] (table, 0))"

text \<open>
  The two tables of the jackknife build. \<^verbatim>\<open>posix_memalign\<close> returns memory whose contents
  are not specified and the code does not clear it: \<open>fresh\<close> is what the new block holds
  when the loops start.
\<close>

definition product_weights12_34 ::
  "int \<Rightarrow> int \<Rightarrow> int \<Rightarrow> int \<Rightarrow> int \<Rightarrow> JK_weights \<Rightarrow> JK_weights \<Rightarrow> (int \<Rightarrow> real)
     \<Rightarrow> int \<Rightarrow> real" where
  "product_weights12_34 I1 I2 I3 I4 nbins JK12 JK34 fresh =
     (if (I1 = I3 \<and> I2 = I4) \<or> (I1 = I4 \<and> I2 = I3) then product_weights JK12
      else product_weights_loop nbins JK12 JK34 fresh)"

definition product_weights12_23 ::
  "int \<Rightarrow> int \<Rightarrow> int \<Rightarrow> JK_weights \<Rightarrow> JK_weights \<Rightarrow> (int \<Rightarrow> real) \<Rightarrow> int \<Rightarrow> real" where
  "product_weights12_23 I1 I3 nbins JK12 JK23 fresh =
     (if I1 = I3 then product_weights JK12
      else product_weights_loop nbins JK12 JK23 fresh)"

subsection \<open>The constructor\<close>

text \<open>
  The state in which thread number \<open>thread_no\<close> enters its first loop. \<open>steps\<close> is the value
  the constructor draws from \<^verbatim>\<open>/dev/urandom\<close>; the generator is seeded with
  \<^verbatim>\<open>steps*(thread+1)\<close> in \<^verbatim>\<open>unsigned long\<close>. The variables and the kernels' buffers are not
  initialised by the code and start as \<open>vars0\<close> and \<open>scratch0\<close>; \<open>ints0\<close> is the accumulator
  the constructor of \<^verbatim>\<open>Integrals\<close> builds.
\<close>

definition init_thread ::
  "('r, 's) env \<Rightarrow> nat \<Rightarrow> int \<Rightarrow> locals \<Rightarrow> 's \<Rightarrow> Integrals \<Rightarrow> ('r, 's) thread" where
  "init_thread E steps thread_no vars0 scratch0 ints0 =
     \<lparr>vars = vars0,
      locrng = gsl_rng_set E ((steps * uint64 (thread_no + 1)) mod 2 ^ 64),
      locint = ints0, scratch = scratch0, sumint = ints0,
      convergence_counter = 0, printtime = 0,
      cell_attempt2 = 0, cell_attempt3 = 0, cell_attempt4 = 0,
      used_cell2 = 0, used_cell3 = 0, used_cell4 = 0,
      loc_used_pairs = 0, loc_used_triples = 0, loc_used_quads = 0,
      tot_pairs = 0, tot_triples = 0, tot_quads = 0,
      cnt2 = 0, cnt3 = 0, cnt4 = 0,
      calls = [], saved = [], saved_jackknife = []\<rparr>"

text \<open>
  The constructor without \<^verbatim>\<open>OPENMP\<close>: thread 0 runs every loop, then the shared accumulator
  is normalised with the total sample counts. The result is the final state, whose \<open>sumint\<close>
  and \<open>tot_pairs\<close>, \<open>tot_triples\<close>, \<open>tot_quads\<close> are what the last files hold.
\<close>

definition compute_integral ::
  "('r, 's) env \<Rightarrow> nat \<Rightarrow> locals \<Rightarrow> 's \<Rightarrow> Integrals \<Rightarrow> error + ('r, 's) thread" where
  "compute_integral E steps vars0 scratch0 ints0 =
     (case outer_loop E [0 .. max_loops (par E) - 1] (init_thread E steps 0 vars0 scratch0 ints0) of
        Inl e \<Rightarrow> Inl e
      | Inr s \<Rightarrow>
          Inr (s\<lparr>sumint :=
                   normalize E (grid_norm (grid1 E)) (grid_norm (grid2 E)) (grid_norm (grid3 E))
                     (grid_norm (grid4 E)) (real (tot_pairs s)) (real (tot_triples s))
                     (real (tot_quads s)) (if POWER E then Some (power_norm (par E)) else None)
                     (sumint s)\<rparr>))"

section \<open>Predicates of the properties\<close>

text \<open>The accepted draws never outnumber the attempted ones.\<close>

definition counters_ok :: "('r, 's) thread \<Rightarrow> bool" where
  "counters_ok s \<longleftrightarrow>
     used_cell2 s \<le> cell_attempt2 s \<and> used_cell3 s \<le> cell_attempt3 s
   \<and> used_cell4 s \<le> cell_attempt4 s"

text \<open>
  The probabilities as composed from the proposal ratios and the occupancies of the j, k and
  l cells.
\<close>

definition p2_ok :: "('r, 's) env \<Rightarrow> locals \<Rightarrow> bool" where
  "p2_ok E L \<longleftrightarrow>
     p2 L = ratio2 L / (real_of_int (grid_np (grid1 E)) * real_of_int (sln L))"

definition p3_ok :: "locals \<Rightarrow> bool" where
  "p3_ok L \<longleftrightarrow> p3 L = ratio3 L * p2 L / real_of_int (tln L)"

definition p4_ok :: "locals \<Rightarrow> bool" where
  "p4_ok L \<longleftrightarrow> p4 L = ratio4 L * p3 L / real_of_int (fln L)"

text \<open>
  A recorded call passes the composed probabilities: \<^verbatim>\<open>second\<close> the final \<^verbatim>\<open>p2\<close>, and in the
  angular build \<^verbatim>\<open>p21\<close> and \<^verbatim>\<open>p22\<close> taken from the ratio as drawn; \<^verbatim>\<open>third\<close> the final \<^verbatim>\<open>p3\<close>;
  \<^verbatim>\<open>fourth\<close> the final \<^verbatim>\<open>p4\<close>.
\<close>

definition probability_ok :: "('r, 's) env \<Rightarrow> kcall \<times> locals \<Rightarrow> bool" where
  "probability_ok E cl =
     (case cl of (call, L) \<Rightarrow>
        (case call of
           Second pl ids n pj pidj p pp \<Rightarrow>
             p = p2 L \<and> p2_ok E L
           \<and> pp = (if \<not> LEGENDRE E \<and> \<not> POWER E
                   then Some (ratio2 L / (real_of_int (grid_np1 (grid1 E)) * real_of_int (sln1 L)),
                              ratio2 L / (real_of_int (grid_np2 (grid1 E)) * real_of_int (sln2 L)))
                   else None)
         | Third pl ids n pj pk pidj pidk p \<Rightarrow>
             p = p3 L \<and> p3_ok L \<and> p2_ok E L
         | Fourth pl ids n pj pk pl' pidj pidk pidl p \<Rightarrow>
             p = p4 L \<and> p4_ok L \<and> p3_ok L \<and> p2_ok E L))"

text \<open>The drawn particles of a recorded call are pairwise distinct.\<close>

definition distinct_ok :: "kcall \<Rightarrow> bool" where
  "distinct_ok call =
     (case call of
        Second pl ids n pj pidj p pp \<Rightarrow> True
      | Third pl ids n pj pk pidj pidk p \<Rightarrow> pidj \<noteq> pidk
      | Fourth pl ids n pj pk pl' pidj pidk pidl p \<Rightarrow>
          pidj \<noteq> pidk \<and> pidl \<noteq> pidj \<and> pidl \<noteq> pidk)"

text \<open>A recorded call passes the particle indices the variables hold at the call.\<close>

definition call_ok :: "('r, 's) env \<Rightarrow> kcall \<times> locals \<Rightarrow> bool" where
  "call_ok E cl =
     (case cl of (call, L) \<Rightarrow>
        probability_ok E cl \<and> distinct_ok call
      \<and> (case call of
           Second pl ids n pj pidj p pp \<Rightarrow> True
         | Third pl ids n pj pk pidj pidk p \<Rightarrow> pidj = pid_j L \<and> pidk = pid_k L
         | Fourth pl ids n pj pk pl' pidj pidk pidl p \<Rightarrow>
             pidj = pid_j L \<and> pidk = pid_k L \<and> pidl = pid_l L))"

text \<open>
  The invariants of the loops: every recorded call is as above; inside the loop over k
  cells \<^verbatim>\<open>p2\<close> is final; inside the loop over l cells \<^verbatim>\<open>p3\<close> is final too and the j and k
  particles differ.
\<close>

definition calls_ok :: "('r, 's) env \<Rightarrow> (kcall \<times> locals) list \<Rightarrow> bool" where
  "calls_ok E cs \<longleftrightarrow> (\<forall>cl \<in> set cs. call_ok E cl)"

definition second_inv :: "('r, 's) env \<Rightarrow> ('r, 's) thread \<Rightarrow> bool" where
  "second_inv E s \<longleftrightarrow> calls_ok E (calls s)"

definition third_inv :: "('r, 's) env \<Rightarrow> ('r, 's) thread \<Rightarrow> bool" where
  "third_inv E s \<longleftrightarrow> second_inv E s \<and> p2_ok E (vars s)"

definition fourth_inv :: "('r, 's) env \<Rightarrow> ('r, 's) thread \<Rightarrow> bool" where
  "fourth_inv E s \<longleftrightarrow>
     third_inv E s \<and> p3_ok (vars s) \<and> pid_j (vars s) \<noteq> pid_k (vars s)"

text \<open>
  What the sampling loops leave alone: the shared accumulator, the convergence counter, the
  totals and the files.
\<close>

definition reduction_untouched :: "('r, 's) thread \<Rightarrow> ('r, 's) thread \<Rightarrow> bool" where
  "reduction_untouched s t \<longleftrightarrow>
     convergence_counter t = convergence_counter s \<and> sumint t = sumint s
   \<and> printtime t = printtime s \<and> tot_pairs t = tot_pairs s \<and> tot_triples t = tot_triples s
   \<and> tot_quads t = tot_quads s \<and> saved t = saved s \<and> saved_jackknife t = saved_jackknife s
   \<and> cnt2 t = cnt2 s \<and> cnt3 t = cnt3 s \<and> cnt4 t = cnt4 s"






text \<open>
  The products that count the samples of a primary cell fit an \<^verbatim>\<open>int\<close>, for every filled cell
  of the first grid.
\<close>

definition products_fit :: "('r, 's) env \<Rightarrow> bool" where
  "products_fit E \<longleftrightarrow>
     0 \<le> N2 (par E) \<and> 0 \<le> N3 (par E) \<and> 0 \<le> N4 (par E)
   \<and> (\<forall>n1 \<in> set [0 .. nf (grid1 E) - 1].
        fst (particle_list (filled (grid1 E) n1) (grid1 E)) * N2 (par E) < 2 ^ 31
      \<and> fst (particle_list (filled (grid1 E) n1) (grid1 E)) * N2 (par E) * N3 (par E) < 2 ^ 31
      \<and> fst (particle_list (filled (grid1 E) n1) (grid1 E)) * N2 (par E) * N3 (par E) * N4 (par E)
            < 2 ^ 31)"

text \<open>The local sample counts are in the ratios \<open>1 : N3 : N3 * N4\<close>, modulo \<open>2^64\<close>.\<close>

definition counts_related :: "('r, 's) env \<Rightarrow> nat \<Rightarrow> nat \<Rightarrow> nat \<Rightarrow> bool" where
  "counts_related E pairs triples quads \<longleftrightarrow>
     triples mod 2 ^ 64 = (pairs * nat (N3 (par E))) mod 2 ^ 64
   \<and> quads mod 2 ^ 64 = (pairs * nat (N3 (par E)) * nat (N4 (par E))) mod 2 ^ 64"

section \<open>Example inputs\<close>

text \<open>
  A grid whose cells all hold the three particles 5, 6 and 7, and in which the cell
  coordinates with a negative first component lie outside; a generator that counts its
  draws and whose uniform deviates cycle through 0, 1/3 and 2/3.
\<close>

definition ex_cell :: Cell where
  "ex_cell = \<lparr>start = 5, np = 3, np1 = 2, np2 = 1\<rparr>"

definition ex_particle :: "int \<Rightarrow> Particle" where
  "ex_particle i = \<lparr>pos = (real_of_int i, 0, 0), w = 1, rand_class = 1\<rparr>"

definition ex_grid :: Grid where
  "ex_grid = \<lparr>grid_c = (\<lambda>i. ex_cell), grid_p = ex_particle, filled = (\<lambda>n. 0), nf = 1,
     grid_np = 3, grid_np1 = 2, grid_np2 = 1, maxnp = 3, grid_norm = 3,
     test_cell = (\<lambda>(a, b, c). if a < 0 then - 1 else 0), cell_id_from_1d = (\<lambda>i. (0, 0, 0)),
     cell_sep = Float3_of_integer3\<rparr>"

definition ex_uniform :: "nat \<Rightarrow> real \<times> nat" where
  "ex_uniform g = (real (g mod 3) / 3, Suc g)"

text \<open>
  An angular, non-periodic build on that grid for all four tracers, with one draw per level
  and one loop on one thread. The kernels add one to the first entry of the array of their
  order.
\<close>

definition ex_rd :: "nat RandomDraws" where
  "ex_rd = \<lparr>random_cubedraw = (\<lambda>g. (((0, 0, 0), 2), Suc g)),
            random_xidraw = (\<lambda>g. (((0, 0, 0), 3), Suc g))\<rparr>"

definition ex_par :: Parameters where
  "ex_par = \<lparr>nbin = 1, mbin = 1, N2 = 1, N3 = 1, N4 = 1, max_loops = 1, nthread = 1,
             multi_tracers = False, power_norm = 1\<rparr>"

definition ex_kernel :: "kcall \<Rightarrow> unit \<times> Integrals \<Rightarrow> unit \<times> Integrals" where
  "ex_kernel call sa =
     (case sa of (u, a) \<Rightarrow>
        (case call of
           Second pl ids n pj pidj p pp \<Rightarrow> (u, a\<lparr>c2 := map (\<lambda>v. v + 1) (c2 a)\<rparr>)
         | Third pl ids n pj pk pidj pidk p \<Rightarrow> (u, a\<lparr>c3 := map (\<lambda>v. v + 1) (c3 a)\<rparr>)
         | Fourth pl ids n pj pk pl' pidj pidk pidl p \<Rightarrow> (u, a\<lparr>c4 := map (\<lambda>v. v + 1) (c4 a)\<rparr>)))"

definition ex_frobs :: frobs where
  "ex_frobs = \<lparr>frob_C2 = 1, frob_C3 = 1, frob_C4 = 0, frob_C2j = 1, frob_C3j = 1, frob_C4j = 0\<rparr>"

definition ex_env :: "(nat, unit) env" where
  "ex_env = \<lparr>grid1 = ex_grid, grid2 = ex_grid, grid3 = ex_grid, grid4 = ex_grid,
     rd13 = ex_rd, rd24 = ex_rd, par = ex_par,
     gsl_rng_uniform = ex_uniform, gsl_rng_set = (\<lambda>seed. 0),
     LEGENDRE = False, POWER = False, JACKKNIFE = False, PERIODIC = False,
     kernel = ex_kernel,
     normalize = (\<lambda>n1 n2 n3 n4 pairs triples quads pn a. a),
     frobenius = (\<lambda>this local n. ex_frobs),
     sum_total_counts = (\<lambda>a k. k),
     Float3_to_integer3 = (\<lambda>v. (0, 0, 0))\<rparr>"

definition ex_vars :: locals where
  "ex_vars = \<lparr>prim_list = [], prim_ids = [], pln = 0, sln = 0, tln = 0, fln = 0, sln1 = 0,
     sln2 = 0, pid_j = 0, pid_k = 0, pid_l = 0, particle_j = ex_particle 0,
     particle_k = ex_particle 0, particle_l = ex_particle 0, p2 = 0, p3 = 0, p4 = 0, p21 = 0,
     p22 = 0, prim_id = (0, 0, 0), sec_id = (0, 0, 0), cell_sep2 = (0, 0, 0), ratio2 = 0,
     ratio3 = 0, ratio4 = 0\<rparr>"

definition ex_ints :: Integrals where
  "ex_ints = \<lparr>c2 = [0], c3 = [0], c4 = [0], c2j = [], c3j = [], c4j = [],
     acc_cnt2 = 0, acc_cnt3 = 0, acc_cnt4 = 0\<rparr>"

definition ex_thread :: "(nat, unit) thread" where
  "ex_thread = init_thread ex_env 1 0 ex_vars () ex_ints"

text \<open>
  The same build with 2048 draws at each level: the product \<open>3 * 2048 * 2048 * 2048\<close> of
  the filled cell does not fit an \<^verbatim>\<open>int\<close>.
\<close>

definition large_env :: "(nat, unit) env" where
  "large_env = ex_env\<lparr>par := ex_par\<lparr>N2 := 2048, N3 := 2048, N4 := 2048\<rparr>\<rparr>"

text \<open>
  Jackknife weights of one bin and one filled region, every weight being one, and a new
  block of memory that holds the value five.
\<close>

definition ex_JK :: JK_weights where
  "ex_JK = \<lparr>weights = (\<lambda>i. 1), n_JK_filled = 1, product_weights = (\<lambda>i. 1)\<rparr>"

definition ex_fresh :: "int \<Rightarrow> real" where
  "ex_fresh i = 5"

section \<open>Properties\<close>

subsection \<open>Auxiliary facts\<close>

lemma fold_invariant:
  assumes "P s" and "\<And>x t. P t \<Longrightarrow> P (f x t)"
  shows "P (fold f xs s)"
  using assms(1) by (induction xs arbitrary: s) (auto intro: assms(2))

lemma call_kernel_eq:
  "call_kernel E call s =
     s\<lparr>scratch := fst (kernel E call (scratch s, locint s)),
       locint := snd (kernel E call (scratch s, locint s)),
       calls := calls s @ [(call, vars s)]\<rparr>"
  by (simp add: call_kernel_def split: prod.split)

lemma calls_ok_snoc: "calls_ok E (cs @ [cl]) \<longleftrightarrow> calls_ok E cs \<and> call_ok E cl"
  by (auto simp: calls_ok_def)

subsection \<open>The particle draws\<close>



subsection \<open>Attempted and accepted draws\<close>









lemma critical_section_frame:
  "critical_section E n s = Inr s' \<Longrightarrow>
     cell_attempt2 s' = cell_attempt2 s \<and> cell_attempt3 s' = cell_attempt3 s
   \<and> cell_attempt4 s' = cell_attempt4 s \<and> used_cell2 s' = used_cell2 s
   \<and> used_cell3 s' = used_cell3 s \<and> used_cell4 s' = used_cell4 s
   \<and> calls s' = calls s \<and> loc_used_pairs s' = loc_used_pairs s
   \<and> loc_used_triples s' = loc_used_triples s \<and> loc_used_quads s' = loc_used_quads s
   \<and> tot_pairs s' = tot_pairs s \<and> tot_triples s' = tot_triples s \<and> tot_quads s' = tot_quads s"
  by (auto simp: critical_section_def Let_def frobenius_difference_sum_def
      split: if_splits prod.splits)

lemma outer_loop_body_cases:
  assumes "outer_loop_body E n s = Inr s'"
  obtains (converged) "convergence_counter s = 10"
      "s' = s\<lparr>loc_used_pairs := 0, loc_used_triples := 0, loc_used_quads := 0,
              printtime := printtime s + 1\<rparr>"
    | (sampled) t where "convergence_counter s \<noteq> 10"
      "t = cell_loop E (s\<lparr>loc_used_pairs := 0, loc_used_triples := 0, loc_used_quads := 0\<rparr>)"
      "critical_section E n
         (t\<lparr>tot_pairs := add64 (tot_pairs t) (loc_used_pairs t),
            tot_triples := add64 (tot_triples t) (loc_used_triples t),
            tot_quads := add64 (tot_quads t) (loc_used_quads t)\<rparr>) = Inr s'"
  using assms by (cases "convergence_counter s = 10") (auto simp: outer_loop_body_def Let_def)



lemma fourth_loop_body_frame:
  "cell_attempt2 (fourth_loop_body E s) = cell_attempt2 s
 \<and> cell_attempt3 (fourth_loop_body E s) = cell_attempt3 s
 \<and> used_cell2 (fourth_loop_body E s) = used_cell2 s
 \<and> used_cell3 (fourth_loop_body E s) = used_cell3 s
 \<and> loc_used_pairs (fourth_loop_body E s) = loc_used_pairs s
 \<and> loc_used_triples (fourth_loop_body E s) = loc_used_triples s
 \<and> loc_used_quads (fourth_loop_body E s) = loc_used_quads s"
  by (simp add: fourth_loop_body_def call_kernel_eq Let_def split: prod.split)

lemma fourth_loop_frame:
  "cell_attempt2 (fourth_loop E s) = cell_attempt2 s
 \<and> cell_attempt3 (fourth_loop E s) = cell_attempt3 s
 \<and> used_cell2 (fourth_loop E s) = used_cell2 s
 \<and> used_cell3 (fourth_loop E s) = used_cell3 s
 \<and> loc_used_pairs (fourth_loop E s) = loc_used_pairs s
 \<and> loc_used_triples (fourth_loop E s) = loc_used_triples s
 \<and> loc_used_quads (fourth_loop E s) = loc_used_quads s"
  unfolding fourth_loop_def
  by (rule fold_invariant) (simp_all add: fourth_loop_body_frame)

lemma third_loop_body_frame:
  "cell_attempt2 (third_loop_body E s) = cell_attempt2 s
 \<and> used_cell2 (third_loop_body E s) = used_cell2 s
 \<and> loc_used_pairs (third_loop_body E s) = loc_used_pairs s
 \<and> loc_used_triples (third_loop_body E s) = loc_used_triples s
 \<and> loc_used_quads (third_loop_body E s) = loc_used_quads s"
  by (simp add: third_loop_body_def fourth_loop_frame call_kernel_eq Let_def split: prod.split)

lemma third_loop_frame:
  "cell_attempt2 (third_loop E s) = cell_attempt2 s
 \<and> used_cell2 (third_loop E s) = used_cell2 s
 \<and> loc_used_pairs (third_loop E s) = loc_used_pairs s
 \<and> loc_used_triples (third_loop E s) = loc_used_triples s
 \<and> loc_used_quads (third_loop E s) = loc_used_quads s"
  unfolding third_loop_def
  by (rule fold_invariant) (simp_all add: third_loop_body_frame)

lemma second_loop_body_frame:
  "loc_used_pairs (second_loop_body E s) = loc_used_pairs s
 \<and> loc_used_triples (second_loop_body E s) = loc_used_triples s
 \<and> loc_used_quads (second_loop_body E s) = loc_used_quads s"
  by (simp add: second_loop_body_def third_loop_frame call_kernel_eq Let_def split: prod.split)

lemma second_loop_frame:
  "loc_used_pairs (second_loop E s) = loc_used_pairs s
 \<and> loc_used_triples (second_loop E s) = loc_used_triples s
 \<and> loc_used_quads (second_loop E s) = loc_used_quads s"
  unfolding second_loop_def
  by (rule fold_invariant) (simp_all add: second_loop_body_frame)




lemma compute_integral_cases:
  assumes "compute_integral E steps vars0 scratch0 ints0 = Inr s'"
  obtains t where
    "outer_loop E [0 .. max_loops (par E) - 1] (init_thread E steps 0 vars0 scratch0 ints0) = Inr t"
    "calls s' = calls t" "cell_attempt2 s' = cell_attempt2 t" "cell_attempt3 s' = cell_attempt3 t"
    "cell_attempt4 s' = cell_attempt4 t" "used_cell2 s' = used_cell2 t"
    "used_cell3 s' = used_cell3 t" "used_cell4 s' = used_cell4 t"
    "tot_pairs s' = tot_pairs t" "tot_triples s' = tot_triples t" "tot_quads s' = tot_quads t"
  using assms by (auto simp: compute_integral_def split: sum.splits)

subsection \<open>The calls of the kernels\<close>

lemma fourth_loop_body_inv: "fourth_inv E s \<Longrightarrow> fourth_inv E (fourth_loop_body E s)"
  by (simp add: fourth_loop_body_def Let_def call_kernel_eq fourth_inv_def third_inv_def
      second_inv_def calls_ok_snoc call_ok_def probability_ok_def distinct_ok_def p2_ok_def
      p3_ok_def p4_ok_def split: prod.split)

lemma fourth_loop_inv: "fourth_inv E s \<Longrightarrow> third_inv E (fourth_loop E s)"
proof -
  assume "fourth_inv E s"
  then have "fourth_inv E (fourth_loop E s)"
    unfolding fourth_loop_def by (rule fold_invariant) (rule fourth_loop_body_inv)
  then show ?thesis by (simp add: fourth_inv_def)
qed

lemma third_loop_body_inv: "third_inv E s \<Longrightarrow> third_inv E (third_loop_body E s)"
  apply (simp add: third_loop_body_def Let_def split: prod.split)
  apply (intro allI impI conjI fourth_loop_inv)
    apply (simp_all add: call_kernel_eq fourth_inv_def third_inv_def second_inv_def
      calls_ok_snoc call_ok_def probability_ok_def distinct_ok_def p2_ok_def p3_ok_def)
  done

lemma third_loop_inv: "third_inv E s \<Longrightarrow> second_inv E (third_loop E s)"
proof -
  assume "third_inv E s"
  then have "third_inv E (third_loop E s)"
    unfolding third_loop_def by (rule fold_invariant) (rule third_loop_body_inv)
  then show ?thesis by (simp add: third_inv_def)
qed

lemma second_loop_body_inv: "second_inv E s \<Longrightarrow> second_inv E (second_loop_body E s)"
  apply (simp add: second_loop_body_def Let_def split: prod.split)
  apply (intro allI impI conjI third_loop_inv)
    apply (simp_all add: call_kernel_eq third_inv_def second_inv_def
      calls_ok_snoc call_ok_def probability_ok_def distinct_ok_def p2_ok_def)
  done

lemma second_loop_inv: "second_inv E s \<Longrightarrow> second_inv E (second_loop E s)"
  unfolding second_loop_def by (rule fold_invariant) (auto intro: second_loop_body_inv)

lemma cell_loop_body_inv: "second_inv E s \<Longrightarrow> second_inv E (cell_loop_body E n1 s)"
  apply (simp add: cell_loop_body_def Let_def split: prod.split)
  apply (intro allI impI conjI second_loop_inv)
    apply (simp_all add: second_inv_def)
  done

lemma cell_loop_inv: "second_inv E s \<Longrightarrow> second_inv E (cell_loop E s)"
  unfolding cell_loop_def by (rule fold_invariant) (auto intro: cell_loop_body_inv)

lemma outer_loop_body_inv:
  assumes "second_inv E s" and "outer_loop_body E n s = Inr s'"
  shows "second_inv E s'"
  using assms(2)
proof (cases rule: outer_loop_body_cases)
  case converged
  with assms(1) show ?thesis by (simp add: second_inv_def)
next
  case (sampled t)
  have "second_inv E (s\<lparr>loc_used_pairs := 0, loc_used_triples := 0, loc_used_quads := 0\<rparr>)"
    using assms(1) by (simp add: second_inv_def)
  then have "second_inv E t"
    unfolding sampled(2) by (rule cell_loop_inv)
  with critical_section_frame [OF sampled(3)] show ?thesis
    by (simp add: second_inv_def)
qed

lemma outer_loop_inv:
  "second_inv E s \<Longrightarrow> outer_loop E ns s = Inr s' \<Longrightarrow> second_inv E s'"
  by (induction ns arbitrary: s) (auto split: sum.splits dest: outer_loop_body_inv)

lemma second_inv_init: "calls s = [] \<Longrightarrow> second_inv E s"
  by (simp add: second_inv_def calls_ok_def)


lemma second_inv_distinct:
  "second_inv E s \<Longrightarrow> cl \<in> set (calls s) \<Longrightarrow> distinct_ok (fst cl)"
  by (cases cl) (auto simp: second_inv_def calls_ok_def call_ok_def)

subsection \<open>The example run\<close>

lemma ex_thread_fields:
  "calls ex_thread = []" "loc_used_pairs ex_thread = 0" "loc_used_triples ex_thread = 0"
  "loc_used_quads ex_thread = 0" "counters_ok ex_thread" "locrng ex_thread = 0"
  by (simp_all add: ex_thread_def init_thread_def ex_env_def counters_ok_def)

lemma ex_env_fields:
  "grid1 ex_env = ex_grid" "par ex_env = ex_par" "filled ex_grid n = 0" "N2 ex_par = 1"
  "N3 ex_par = 1" "N4 ex_par = 1" "nf ex_grid = 1" "cell_id_from_1d ex_grid i = (0, 0, 0)"
  by (simp_all add: ex_env_def ex_grid_def ex_par_def)

lemma ex_particle_list:
  "particle_list 0 ex_grid = (3, [ex_particle 5, ex_particle 6, ex_particle 7], [5, 6, 7])"
  by (simp add: ex_grid_def ex_cell_def particle_list_def Let_def)

lemma ex_cell_loop:
  "cell_loop ex_env ex_thread =
     second_loop_body ex_env
       (ex_thread\<lparr>vars := (vars ex_thread)\<lparr>prim_id := (0, 0, 0), pln := 3,
                     prim_list := [ex_particle 5, ex_particle 6, ex_particle 7],
                     prim_ids := [5, 6, 7]\<rparr>,
                  loc_used_pairs := 3, loc_used_triples := 3, loc_used_quads := 3\<rparr>)"
  by (simp add: cell_loop_def cell_loop_body_def second_loop_def ex_env_fields ex_particle_list
      ex_thread_fields int32_def uint64_def add64_def)

lemma ex_calls:
  "map fst (calls (cell_loop ex_env ex_thread)) =
     [Second [ex_particle 5, ex_particle 6, ex_particle 7] [5, 6, 7] 3 (ex_particle 6) 6 (2 / 9)
        (Some (1 / 2, 2)),
      Third [ex_particle 5, ex_particle 6, ex_particle 7] [5, 6, 7] 3 (ex_particle 6)
        (ex_particle 5) 6 5 (2 / 9),
      Fourth [ex_particle 5, ex_particle 6, ex_particle 7] [5, 6, 7] 3 (ex_particle 6)
        (ex_particle 5) (ex_particle 7) 6 5 7 (2 / 9)]"
  by (simp add: ex_cell_loop)
    (simp add: ex_env_def ex_grid_def ex_cell_def ex_particle_def ex_uniform_def ex_rd_def
      ex_par_def ex_kernel_def ex_vars_def ex_ints_def ex_thread_def init_thread_def
      fourth_loop_body_def fourth_loop_def third_loop_body_def third_loop_def
      second_loop_body_def call_kernel_def draw_particle_def draw_particle_without_class_def
      add_integer3_def add_Float3_def Let_def)

subsection \<open>Claims on the sampling loops\<close>






text \<open>
  Claim C6. \<^verbatim>\<open>third\<close> is never called with \<^verbatim>\<open>pid_k\<close> equal to \<^verbatim>\<open>pid_j\<close>, and \<^verbatim>\<open>fourth\<close> only
  with \<^verbatim>\<open>pid_j\<close>, \<^verbatim>\<open>pid_k\<close> and \<^verbatim>\<open>pid_l\<close> pairwise distinct. Nothing keeps the drawn particles
  apart from the primary ones: in the example run \<^verbatim>\<open>fourth\<close> is called with all three drawn
  indices among the indices of the primary cell.
\<close>

theorem drawn_particles_distinct:
  assumes "calls s = []"
  shows "(\<forall>cl \<in> set (calls (cell_loop E s)). distinct_ok (fst cl))
       \<and> (\<forall>s'. outer_loop E ns s = Inr s' \<longrightarrow> (\<forall>cl \<in> set (calls s'). distinct_ok (fst cl)))
       \<and> (\<forall>s'. compute_integral E steps vars0 scratch0 ints0 = Inr s'
             \<longrightarrow> (\<forall>cl \<in> set (calls s'). distinct_ok (fst cl)))
       \<and> (\<exists>cl \<in> set (calls (cell_loop ex_env ex_thread)).
             case fst cl of
               Fourth pl ids n pj pk pl' pidj pidk pidl p \<Rightarrow>
                 pidj \<in> set ids \<and> pidk \<in> set ids \<and> pidl \<in> set ids
             | _ \<Rightarrow> False)"
proof (intro conjI allI impI ballI)
  fix cl assume "cl \<in> set (calls (cell_loop E s))"
  with cell_loop_inv [OF second_inv_init [OF assms]] show "distinct_ok (fst cl)"
    by (rule second_inv_distinct)
next
  fix s' cl assume "outer_loop E ns s = Inr s'" and "cl \<in> set (calls s')"
  with outer_loop_inv [OF second_inv_init [OF assms]] show "distinct_ok (fst cl)"
    by (blast intro: second_inv_distinct)
next
  fix s' cl
  assume run: "compute_integral E steps vars0 scratch0 ints0 = Inr s'" and cl: "cl \<in> set (calls s')"
  from run show "distinct_ok (fst cl)"
  proof (cases rule: compute_integral_cases)
    case (1 t)
    have "second_inv E (init_thread E steps 0 vars0 scratch0 ints0)"
      by (rule second_inv_init) (simp add: init_thread_def)
    from outer_loop_inv [OF this 1(1)] cl 1(2) show ?thesis
      by (auto intro: second_inv_distinct)
  qed
next
  let ?c = "Fourth [ex_particle 5, ex_particle 6, ex_particle 7] [5, 6, 7] 3 (ex_particle 6)
        (ex_particle 5) (ex_particle 7) 6 5 7 (2 / 9)"
  have "?c \<in> set (map fst (calls (cell_loop ex_env ex_thread)))"
    by (simp add: ex_calls)
  then obtain cl where "cl \<in> set (calls (cell_loop ex_env ex_thread))" and "fst cl = ?c"
    by auto
  then show "\<exists>cl \<in> set (calls (cell_loop ex_env ex_thread)).
             case fst cl of
               Fourth pl ids n pj pk pl' pidj pidk pidl p \<Rightarrow>
                 pidj \<in> set ids \<and> pidk \<in> set ids \<and> pidl \<in> set ids
             | _ \<Rightarrow> False"
    by (intro bexI [of _ cl]) simp_all
qed

theorem drawn_particles_distinct_witness:
  "calls ex_thread = []
 \<and> list_all (\<lambda>cl. distinct_ok (fst cl)) (calls (cell_loop ex_env ex_thread))
 \<and> map fst (calls (cell_loop ex_env ex_thread)) =
     [Second [ex_particle 5, ex_particle 6, ex_particle 7] [5, 6, 7] 3 (ex_particle 6) 6 (2 / 9)
        (Some (1 / 2, 2)),
      Third [ex_particle 5, ex_particle 6, ex_particle 7] [5, 6, 7] 3 (ex_particle 6)
        (ex_particle 5) 6 5 (2 / 9),
      Fourth [ex_particle 5, ex_particle 6, ex_particle 7] [5, 6, 7] 3 (ex_particle 6)
        (ex_particle 5) (ex_particle 7) 6 5 7 (2 / 9)]"
  using drawn_particles_distinct [of ex_thread ex_env] ex_calls
  by (simp add: list_all_iff ex_thread_fields)

subsection \<open>The reduction and the convergence counter\<close>

lemma fourth_loop_body_untouched: "reduction_untouched s (fourth_loop_body E s)"
  by (simp add: fourth_loop_body_def call_kernel_eq reduction_untouched_def Let_def
      split: prod.split)

lemma reduction_untouched_trans:
  "reduction_untouched s t \<Longrightarrow> reduction_untouched t u \<Longrightarrow> reduction_untouched s u"
  by (simp add: reduction_untouched_def)

lemma reduction_untouched_fold:
  assumes "\<And>x t. reduction_untouched t (f x t)"
  shows "reduction_untouched s (fold f xs s)"
proof (induction xs arbitrary: s)
  case Nil
  show ?case by (simp add: reduction_untouched_def)
next
  case (Cons x xs)
  from assms [of s x] Cons [of "f x s"] show ?case
    by (auto intro: reduction_untouched_trans)
qed

lemma fourth_loop_untouched: "reduction_untouched s (fourth_loop E s)"
  unfolding fourth_loop_def by (rule reduction_untouched_fold) (rule fourth_loop_body_untouched)

lemma third_loop_body_untouched: "reduction_untouched s (third_loop_body E s)"
  apply (simp add: third_loop_body_def Let_def split: prod.split)
  apply (intro allI impI conjI)
    apply (simp_all add: reduction_untouched_def)
  apply (insert fourth_loop_untouched [of _ E])
  apply (simp add: reduction_untouched_def call_kernel_eq)
  done


lemma third_loop_untouched: "reduction_untouched s (third_loop E s)"
  unfolding third_loop_def by (rule reduction_untouched_fold) (rule third_loop_body_untouched)

lemma second_loop_body_untouched: "reduction_untouched s (second_loop_body E s)"
  apply (simp add: second_loop_body_def Let_def split: prod.split)
  apply (intro allI impI conjI)
    apply (simp_all add: reduction_untouched_def)
  apply (insert third_loop_untouched [of _ E])
  apply (simp_all add: reduction_untouched_def call_kernel_eq)
  done

lemma second_loop_untouched: "reduction_untouched s (second_loop E s)"
  unfolding second_loop_def by (rule reduction_untouched_fold) (rule second_loop_body_untouched)

lemma cell_loop_body_untouched: "reduction_untouched s (cell_loop_body E n1 s)"
  apply (simp add: cell_loop_body_def Let_def split: prod.split)
  apply (intro allI impI conjI)
    apply (simp_all add: reduction_untouched_def)
  apply (insert second_loop_untouched [of _ E])
  apply (simp_all add: reduction_untouched_def)
  done

lemma cell_loop_untouched: "reduction_untouched s (cell_loop E s)"
  unfolding cell_loop_def by (rule reduction_untouched_fold) (rule cell_loop_body_untouched)

lemma smod_eq_0_iff_dvd:
  fixes k l :: int
  assumes "l \<noteq> 0"
  shows "k smod l = 0 \<longleftrightarrow> l dvd k"
proof -
  have "k smod l = 0 \<longleftrightarrow> \<bar>k\<bar> mod \<bar>l\<bar> = 0"
    by (cases "k = 0") (auto simp: signed_modulo_int_def sgn_if)
  also have "\<dots> \<longleftrightarrow> \<bar>l\<bar> dvd \<bar>k\<bar>"
    by (simp add: dvd_eq_mod_eq_0)
  also have "\<dots> \<longleftrightarrow> l dvd k"
    by simp
  finally show ?thesis .
qed

lemma critical_section_Inr:
  assumes "critical_section E n_loops s = Inr s'"
  shows "nthread (par E) \<noteq> 0"
    and "convergence_counter s' = convergence_counter s +
           (if nthread (par E) dvd n_loops + 1
               \<and> frob_C4 (frobenius E (sumint s) (locint s) n_loops) < 0.01
               \<and> (JACKKNIFE E \<longrightarrow> frob_C4j (frobenius E (sumint s) (locint s) n_loops) < 0.01)
            then 1 else 0)"
    and "sumint s' =
           (if nthread (par E) dvd n_loops + 1
            then sum_ints (sum_ints (sumint s) (locint s)) (locint s)
            else sum_ints (sumint s) (locint s))"
    and "printtime s' = printtime s" and "locrng s' = locrng s"
proof -
  from assms show nz: "nthread (par E) \<noteq> 0"
    by (auto simp: critical_section_def split: if_splits)
  note iff = smod_eq_0_iff_dvd [OF nz, of "n_loops + 1"]
  from assms nz show "convergence_counter s' = convergence_counter s +
           (if nthread (par E) dvd n_loops + 1
               \<and> frob_C4 (frobenius E (sumint s) (locint s) n_loops) < 0.01
               \<and> (JACKKNIFE E \<longrightarrow> frob_C4j (frobenius E (sumint s) (locint s) n_loops) < 0.01)
            then 1 else 0)"
    by (auto simp: critical_section_def Let_def frobenius_difference_sum_def iff
        split: if_splits prod.splits)
  from assms nz show "sumint s' =
           (if nthread (par E) dvd n_loops + 1
            then sum_ints (sum_ints (sumint s) (locint s)) (locint s)
            else sum_ints (sumint s) (locint s))"
    by (auto simp: critical_section_def Let_def frobenius_difference_sum_def iff
        split: if_splits prod.splits)
  from assms nz show "printtime s' = printtime s" "locrng s' = locrng s"
    by (auto simp: critical_section_def Let_def frobenius_difference_sum_def
        split: if_splits prod.splits)
qed

lemma critical_section_total:
  "nthread (par E) \<noteq> 0 \<Longrightarrow> \<exists>s'. critical_section E n_loops s = Inr s'"
  by (simp add: critical_section_def Let_def split: prod.split)

lemma outer_loop_body_total:
  "nthread (par E) \<noteq> 0 \<Longrightarrow> \<exists>s'. outer_loop_body E n_loops s = Inr s'"
  by (simp add: outer_loop_body_def Let_def critical_section_total)

lemma outer_loop_total:
  "nthread (par E) \<noteq> 0 \<Longrightarrow> \<exists>s'. outer_loop E ns s = Inr s'"
proof (induction ns arbitrary: s)
  case Nil
  show ?case by simp
next
  case (Cons n ns)
  from outer_loop_body_total [OF Cons.prems] obtain t where "outer_loop_body E n s = Inr t"
    by blast
  with Cons.IH [OF Cons.prems, of t] show ?case by simp
qed

lemma outer_loop_body_counter:
  assumes "outer_loop_body E n_loops s = Inr s'"
  shows "convergence_counter s \<le> convergence_counter s'"
    and "convergence_counter s' \<le> convergence_counter s + 1"
    and "\<not> nthread (par E) dvd n_loops + 1 \<Longrightarrow> convergence_counter s' = convergence_counter s"
    and "convergence_counter s \<le> 10 \<Longrightarrow> convergence_counter s' \<le> 10"
proof -
  have "convergence_counter s \<le> convergence_counter s'
      \<and> convergence_counter s' \<le> convergence_counter s + 1
      \<and> (\<not> nthread (par E) dvd n_loops + 1 \<longrightarrow> convergence_counter s' = convergence_counter s)
      \<and> (convergence_counter s \<le> 10 \<longrightarrow> convergence_counter s' \<le> 10)"
    using assms
  proof (cases rule: outer_loop_body_cases)
    case converged
    then show ?thesis by simp
  next
    case (sampled t)
    have "convergence_counter t = convergence_counter s"
      using cell_loop_untouched [of "s\<lparr>loc_used_pairs := 0, loc_used_triples := 0, loc_used_quads := 0\<rparr>" E]
      by (simp add: sampled(2) reduction_untouched_def)
    with critical_section_Inr(2) [OF sampled(3)] sampled(1) show ?thesis
      by (simp split: if_splits)
  qed
  then show "convergence_counter s \<le> convergence_counter s'"
    and "convergence_counter s' \<le> convergence_counter s + 1"
    and "\<not> nthread (par E) dvd n_loops + 1 \<Longrightarrow> convergence_counter s' = convergence_counter s"
    and "convergence_counter s \<le> 10 \<Longrightarrow> convergence_counter s' \<le> 10"
    by simp_all
qed

lemma outer_loop_counter_mono:
  "outer_loop E ns s = Inr s' \<Longrightarrow> convergence_counter s \<le> convergence_counter s'"
proof (induction ns arbitrary: s)
  case Nil
  then show ?case by simp
next
  case (Cons n ns)
  from Cons.prems obtain t where t: "outer_loop_body E n s = Inr t" "outer_loop E ns t = Inr s'"
    by (auto split: sum.splits)
  from outer_loop_body_counter(1) [OF t(1)] Cons.IH [OF t(2)] show ?case by simp
qed

lemma outer_loop_converged:
  assumes "convergence_counter s = 10"
  shows "outer_loop E ns s =
     Inr (if ns = [] then s
          else s\<lparr>loc_used_pairs := 0, loc_used_triples := 0, loc_used_quads := 0,
                 printtime := printtime s + int (length ns)\<rparr>)"
  using assms
proof (induction ns arbitrary: s)
  case Nil
  show ?case by simp
next
  case (Cons n ns)
  let ?t = "s\<lparr>loc_used_pairs := 0, loc_used_triples := 0, loc_used_quads := 0,
              printtime := printtime s + 1\<rparr>"
  from Cons.prems have step: "outer_loop_body E n s = Inr ?t"
    by (simp add: outer_loop_body_def Let_def)
  from Cons.prems have "convergence_counter ?t = 10" by simp
  from Cons.IH [OF this] step show ?case
    by (cases ns) simp_all
qed



text \<open>
  Claim C4. The convergence counter never decreases: an outer loop leaves it or adds one,
  any sequence of outer loops ends with a counter at least as large, and the sampling loops
  do not touch it. A thread that finds the counter equal to 10 at the start of an outer loop
  does nothing in that loop and in all its remaining ones but clear the local sample counts
  and count the skipped loops in \<^verbatim>\<open>printtime\<close>: generator, accumulators, kernel calls, totals
  and files stay as they are.
\<close>

theorem convergence_counter_climbs:
  "(\<forall>s'. outer_loop_body E n_loops s = Inr s'
      \<longrightarrow> convergence_counter s \<le> convergence_counter s'
        \<and> convergence_counter s' \<le> convergence_counter s + 1
        \<and> (convergence_counter s \<le> 10 \<longrightarrow> convergence_counter s' \<le> 10))
 \<and> (\<forall>s'. outer_loop E ns s = Inr s' \<longrightarrow> convergence_counter s \<le> convergence_counter s')
 \<and> convergence_counter (cell_loop E s) = convergence_counter s
 \<and> (convergence_counter s = 10 \<longrightarrow>
      outer_loop E ns s =
        Inr (if ns = [] then s
             else s\<lparr>loc_used_pairs := 0, loc_used_triples := 0, loc_used_quads := 0,
                    printtime := printtime s + int (length ns)\<rparr>))"
  using outer_loop_body_counter(1,2,4) [of E n_loops s] outer_loop_counter_mono [of E ns s]
    cell_loop_untouched [of s E] outer_loop_converged [of s E ns]
  by (auto simp: reduction_untouched_def)

theorem convergence_counter_climbs_witness:
  "convergence_counter (ex_thread\<lparr>convergence_counter := 10\<rparr>) = 10
 \<and> outer_loop ex_env [0, 1] (ex_thread\<lparr>convergence_counter := 10\<rparr>) =
     Inr (ex_thread\<lparr>convergence_counter := 10, loc_used_pairs := 0, loc_used_triples := 0,
                     loc_used_quads := 0, printtime := 2\<rparr>)
 \<and> \<not> isl (outer_loop ex_env [0] ex_thread)
 \<and> convergence_counter ex_thread \<le> convergence_counter (projr (outer_loop ex_env [0] ex_thread))"
proof -
  have nz: "nthread (par ex_env) \<noteq> 0"
    by (simp add: ex_env_def ex_par_def)
  from outer_loop_total [OF nz] obtain s'
    where run: "outer_loop ex_env [0] ex_thread = Inr s'"
    by blast
  have pt: "printtime ex_thread = 0"
    by (simp add: ex_thread_def init_thread_def)
  from convergence_counter_climbs [of ex_env 0 ex_thread "[0]"] run
  have "convergence_counter ex_thread \<le> convergence_counter s'"
    by blast
  moreover from convergence_counter_climbs [of ex_env 0 "ex_thread\<lparr>convergence_counter := 10\<rparr>" "[0, 1]"]
  have "outer_loop ex_env [0, 1] (ex_thread\<lparr>convergence_counter := 10\<rparr>) =
     Inr (ex_thread\<lparr>convergence_counter := 10, loc_used_pairs := 0, loc_used_triples := 0,
                     loc_used_quads := 0, printtime := 2\<rparr>)"
    by (simp add: pt)
  ultimately show ?thesis using run by simp
qed

subsection \<open>The sample counts\<close>

lemma cell_loop_body_loc_used:
  "loc_used_pairs (cell_loop_body E n1 s) =
     (let n = fst (particle_list (filled (grid1 E) n1) (grid1 E))
      in if n = 0 then loc_used_pairs s
         else add64 (loc_used_pairs s) (uint64 (int32 (n * N2 (par E)))))"
  "loc_used_triples (cell_loop_body E n1 s) =
     (let n = fst (particle_list (filled (grid1 E) n1) (grid1 E))
      in if n = 0 then loc_used_triples s
         else add64 (loc_used_triples s) (uint64 (int32 (int32 (n * N2 (par E)) * N3 (par E)))))"
  "loc_used_quads (cell_loop_body E n1 s) =
     (let n = fst (particle_list (filled (grid1 E) n1) (grid1 E))
      in if n = 0 then loc_used_quads s
         else add64 (loc_used_quads s)
                (uint64 (int32 (int32 (int32 (n * N2 (par E)) * N3 (par E)) * N4 (par E)))))"
  by (simp_all add: cell_loop_body_def Let_def second_loop_frame split: prod.split)

lemma fold_invariant_set:
  assumes "P s" and "\<And>x t. x \<in> set xs \<Longrightarrow> P t \<Longrightarrow> P (f x t)"
  shows "P (fold f xs s)"
  using assms by (induction xs arbitrary: s) auto

lemma int32_id: "0 \<le> v \<Longrightarrow> v < 2 ^ 31 \<Longrightarrow> int32 v = v"
  by (simp add: int32_def)

lemma uint64_nat: "0 \<le> v \<Longrightarrow> v < 2 ^ 31 \<Longrightarrow> uint64 v = nat v"
  by (simp add: uint64_def)

lemma counts_related_add:
  assumes "counts_related E p t q" and "0 \<le> a" and "0 \<le> N3 (par E)" and "0 \<le> N4 (par E)"
  shows "counts_related E (add64 p (nat a)) (add64 t (nat (a * N3 (par E))))
           (add64 q (nat (a * N3 (par E) * N4 (par E))))"
proof -
  let ?M = "2 ^ 64 :: nat"
  let ?n3 = "nat (N3 (par E))"
  let ?n4 = "nat (N4 (par E))"
  from assms have a3: "nat (a * N3 (par E)) = nat a * ?n3"
    and a34: "nat (a * N3 (par E) * N4 (par E)) = nat a * ?n3 * ?n4"
    by (simp_all add: nat_mult_distrib)
  from assms(1) have t: "t mod ?M = (p * ?n3) mod ?M" and q: "q mod ?M = (p * ?n3 * ?n4) mod ?M"
    by (simp_all add: counts_related_def)
  have "(t + nat a * ?n3) mod ?M = (t mod ?M + nat a * ?n3) mod ?M"
    by (simp add: mod_add_left_eq)
  also have "\<dots> = ((p * ?n3) mod ?M + nat a * ?n3) mod ?M"
    by (simp only: t)
  also have "\<dots> = ((p + nat a) * ?n3) mod ?M"
    by (simp add: distrib_right mod_add_left_eq)
  also have "\<dots> = ((p + nat a) mod ?M * ?n3) mod ?M"
    by (simp add: mod_mult_left_eq)
  finally have T: "(t + nat a * ?n3) mod ?M = ((p + nat a) mod ?M * ?n3) mod ?M" .
  have "(q + nat a * ?n3 * ?n4) mod ?M = (q mod ?M + nat a * ?n3 * ?n4) mod ?M"
    by (simp add: mod_add_left_eq)
  also have "\<dots> = ((p * ?n3 * ?n4) mod ?M + nat a * ?n3 * ?n4) mod ?M"
    by (simp only: q)
  also have "\<dots> = ((p + nat a) * (?n3 * ?n4)) mod ?M"
    by (simp add: distrib_right mult.assoc mod_add_left_eq)
  also have "\<dots> = ((p + nat a) mod ?M * (?n3 * ?n4)) mod ?M"
    by (simp add: mod_mult_left_eq)
  finally have Q: "(q + nat a * ?n3 * ?n4) mod ?M = ((p + nat a) mod ?M * ?n3 * ?n4) mod ?M"
    by (simp add: mult.assoc)
  from T Q show ?thesis
    by (simp add: counts_related_def add64_def a3 a34)
qed

lemma cell_loop_body_related:
  assumes fit: "products_fit E" and n1: "n1 \<in> set [0 .. nf (grid1 E) - 1]"
    and rel: "counts_related E (loc_used_pairs s) (loc_used_triples s) (loc_used_quads s)"
  shows "counts_related E (loc_used_pairs (cell_loop_body E n1 s))
           (loc_used_triples (cell_loop_body E n1 s)) (loc_used_quads (cell_loop_body E n1 s))"
proof -
  define n where "n = fst (particle_list (filled (grid1 E) n1) (grid1 E))"
  have n0: "0 \<le> n"
    by (simp add: n_def particle_list_def Let_def)
  from fit have N: "0 \<le> N2 (par E)" "0 \<le> N3 (par E)" "0 \<le> N4 (par E)"
    by (simp_all add: products_fit_def)
  from fit n1 have lt: "n * N2 (par E) < 2 ^ 31" "n * N2 (par E) * N3 (par E) < 2 ^ 31"
    "n * N2 (par E) * N3 (par E) * N4 (par E) < 2 ^ 31"
    unfolding products_fit_def n_def by blast+
  let ?a = "n * N2 (par E)"
  from n0 N have ge: "0 \<le> ?a" "0 \<le> ?a * N3 (par E)" "0 \<le> ?a * N3 (par E) * N4 (par E)"
    by simp_all
  have vals: "uint64 (int32 ?a) = nat ?a"
    "uint64 (int32 (int32 ?a * N3 (par E))) = nat (?a * N3 (par E))"
    "uint64 (int32 (int32 (int32 ?a * N3 (par E)) * N4 (par E))) = nat (?a * N3 (par E) * N4 (par E))"
    using ge lt by (simp_all add: int32_id uint64_nat)
  show ?thesis
  proof (cases "n = 0")
    case True
    with rel show ?thesis
      by (simp add: cell_loop_body_loc_used n_def [symmetric])
  next
    case False
    with counts_related_add [OF rel ge(1) N(2,3)] show ?thesis
      by (simp add: cell_loop_body_loc_used n_def [symmetric] vals)
  qed
qed

lemma outer_loop_body_related:
  fixes E :: "('r, 's) env"
  assumes "products_fit E" and "outer_loop_body E n_loops s = Inr s'"
  shows "counts_related E (loc_used_pairs s') (loc_used_triples s') (loc_used_quads s')"
  using assms(2)
proof (cases rule: outer_loop_body_cases)
  case converged
  then show ?thesis by (simp add: counts_related_def)
next
  case (sampled t)
  have "counts_related E (loc_used_pairs t) (loc_used_triples t) (loc_used_quads t)"
    unfolding sampled(2) cell_loop_def
  proof (rule fold_invariant_set
      [where P = "\<lambda>u. counts_related E (loc_used_pairs u) (loc_used_triples u) (loc_used_quads u)"])
    show "counts_related E
        (loc_used_pairs (s\<lparr>loc_used_pairs := 0, loc_used_triples := 0, loc_used_quads := 0\<rparr>))
        (loc_used_triples (s\<lparr>loc_used_pairs := 0, loc_used_triples := 0, loc_used_quads := 0\<rparr>))
        (loc_used_quads (s\<lparr>loc_used_pairs := 0, loc_used_triples := 0, loc_used_quads := 0\<rparr>))"
      by (simp add: counts_related_def)
  next
    fix x and u :: "('r, 's) thread"
    assume "x \<in> set [0 .. nf (grid1 E) - 1]"
      and "counts_related E (loc_used_pairs u) (loc_used_triples u) (loc_used_quads u)"
    then show "counts_related E (loc_used_pairs (cell_loop_body E x u))
        (loc_used_triples (cell_loop_body E x u)) (loc_used_quads (cell_loop_body E x u))"
      by (rule cell_loop_body_related [OF assms(1)])
  qed
  with critical_section_frame [OF sampled(3)] show ?thesis
    by simp
qed

lemma large_env_fields:
  "grid1 large_env = ex_grid" "N2 (par large_env) = 2048" "N3 (par large_env) = 2048"
  "N4 (par large_env) = 2048" "nthread (par large_env) = 1"
  by (simp_all add: large_env_def ex_env_def ex_par_def)

text \<open>
  Claim C10 says that after every completed outer loop \<open>loc_used_triples = loc_used_pairs * N3\<close>
  and \<open>loc_used_quads = loc_used_pairs * N3 * N4\<close>, and likewise for the totals. The
  increments are products of \<^verbatim>\<open>int\<close>s, converted to \<^verbatim>\<open>uint64\<close> only afterwards. With 2048
  draws at each level and a filled cell of three particles the outer loop ends with
  \<open>loc_used_pairs = 6144\<close> and \<open>loc_used_triples = 12582912\<close>, but with
  \<open>loc_used_quads = 0\<close> and \<open>tot_quads = 0\<close>, where the relation asks for 25769803776: the
  product for the quads is a multiple of \<open>2^32\<close>. While the products fit an \<^verbatim>\<open>int\<close> the
  relations hold (\<open>outer_loop_body_related\<close>).
\<close>

theorem sample_counts_overflow:
  "\<not> isl (outer_loop_body large_env 0 ex_thread)
 \<and> loc_used_pairs (projr (outer_loop_body large_env 0 ex_thread)) = 6144
 \<and> loc_used_triples (projr (outer_loop_body large_env 0 ex_thread)) = 12582912
 \<and> loc_used_quads (projr (outer_loop_body large_env 0 ex_thread)) = 0
 \<and> tot_pairs (projr (outer_loop_body large_env 0 ex_thread)) = 6144
 \<and> tot_quads (projr (outer_loop_body large_env 0 ex_thread)) = 0
 \<and> 6144 * N3 (par large_env) * N4 (par large_env) = 25769803776"
proof -
  have nz: "nthread (par large_env) \<noteq> 0"
    by (simp add: large_env_fields)
  from outer_loop_body_total [OF nz] obtain s'
    where run: "outer_loop_body large_env 0 ex_thread = Inr s'"
    by blast
  have cc: "convergence_counter ex_thread = 0" "tot_pairs ex_thread = 0" "tot_quads ex_thread = 0"
    by (simp_all add: ex_thread_def init_thread_def)
  let ?s0 = "ex_thread\<lparr>loc_used_pairs := 0, loc_used_triples := 0, loc_used_quads := 0\<rparr>"
  have loop: "cell_loop large_env ?s0 = cell_loop_body large_env 0 ?s0"
    by (simp add: cell_loop_def large_env_fields ex_env_fields)
  have local: "loc_used_pairs (cell_loop large_env ?s0) = 6144"
    "loc_used_triples (cell_loop large_env ?s0) = 12582912"
    "loc_used_quads (cell_loop large_env ?s0) = 0"
    by (simp_all add: loop cell_loop_body_loc_used large_env_fields ex_env_fields
        ex_particle_list int32_def uint64_def add64_def)
  from run show ?thesis
  proof (cases rule: outer_loop_body_cases)
    case converged
    with cc show ?thesis by simp
  next
    case (sampled t)
    from cell_loop_untouched [of ?s0 large_env] have "tot_pairs t = 0" "tot_quads t = 0"
      by (simp_all add: sampled(2) reduction_untouched_def cc)
    with critical_section_frame [OF sampled(3)] local run show ?thesis
      by (simp add: sampled(2) [symmetric] add64_def large_env_fields)
  qed
qed

subsection \<open>The shared accumulator\<close>



subsection \<open>The jackknife product weights\<close>

lemma product_weights_reused:
  "(I1 = I3 \<and> I2 = I4) \<or> (I1 = I4 \<and> I2 = I3) \<Longrightarrow>
     product_weights12_34 I1 I2 I3 I4 nbins JK12 JK34 fresh = product_weights JK12"
  by (simp add: product_weights12_34_def)

lemma upto_from_0: "[0 .. m - 1] = map int [0 ..< nat m]"
proof (cases "m \<le> 0")
  case True
  then show ?thesis by simp
next
  case False
  have "[0 .. int k - 1] = map int [0 ..< k]" for k
  proof (induction k)
    case 0
    show ?case by simp
  next
    case (Suc k)
    have "[0 .. int (Suc k) - 1] = [0 .. int k - 1] @ [int k]"
      using upto_rec2 [of 0 "int k"] by simp
    with Suc show ?case by simp
  qed
  from this [of "nat m"] False show ?thesis by simp
qed

lemma inner_loop_entry:
  fixes tab :: "int \<Rightarrow> real"
  shows "fold (\<lambda>bin_b tab. tab(pb2 + bin_b := tab (pb2 + bin_b) + tw * wb (pb + bin_b)))
     (map int [0 ..< k]) tab
   = (\<lambda>i. tab i + (if pb2 \<le> i \<and> i < pb2 + int k then tw * wb (pb + (i - pb2)) else 0))"
proof -
  define f where "f = (\<lambda>bin_b (tab :: int \<Rightarrow> real).
    tab(pb2 + bin_b := tab (pb2 + bin_b) + tw * wb (pb + bin_b)))"
  have "fold f (map int [0 ..< k]) tab
      = (\<lambda>i. tab i + (if pb2 \<le> i \<and> i < pb2 + int k then tw * wb (pb + (i - pb2)) else 0))"
  proof (induction k)
    case 0
    show ?case by (auto simp: fun_eq_iff)
  next
    case (Suc k)
    have "fold f (map int [0 ..< Suc k]) tab = f (int k) (fold f (map int [0 ..< k]) tab)"
      by simp
    also have "\<dots> = (\<lambda>i. tab i
        + (if pb2 \<le> i \<and> i < pb2 + int (Suc k) then tw * wb (pb + (i - pb2)) else 0))"
      unfolding Suc by (auto simp: f_def fun_eq_iff)
    finally show ?case .
  qed
  then show ?thesis by (simp add: f_def)
qed

lemma div_mod_in_row:
  fixes i nbins :: int
  assumes "0 < nbins" and "int k * nbins \<le> i" and "i < int k * nbins + nbins"
  shows "i div nbins = int k" and "i mod nbins = i - int k * nbins"
proof -
  show d: "i div nbins = int k"
    using assms by (intro int_div_pos_eq [of i nbins "int k" "i - int k * nbins"])
      (auto simp: algebra_simps)
  show "i mod nbins = i - int k * nbins"
    using minus_div_mult_eq_mod [of i nbins] d by simp
qed

lemma middle_loop_entry:
  fixes tab :: "int \<Rightarrow> real"
  assumes "0 < nbins"
  shows "fold
       (\<lambda>bin_a (tab, partial_bin2).
          (let this_weight = wa (pb + bin_a)
           in fold
                (\<lambda>bin_b tab.
                   tab(partial_bin2 + bin_b :=
                         tab (partial_bin2 + bin_b) + this_weight * wb (pb + bin_b)))
                (map int [0 ..< nat nbins]) tab,
           partial_bin2 + nbins))
       (map int [0 ..< k]) (tab, 0)
     = (\<lambda>i. tab i + (if 0 \<le> i \<and> i < int k * nbins
                       then wa (pb + i div nbins) * wb (pb + i mod nbins) else 0),
        int k * nbins)"
proof -
  define f where "f = (\<lambda>bin_a (tp :: (int \<Rightarrow> real) \<times> int).
    case tp of (tab, partial_bin2) \<Rightarrow>
          (let this_weight = wa (pb + bin_a)
           in fold
                (\<lambda>bin_b tab.
                   tab(partial_bin2 + bin_b :=
                         tab (partial_bin2 + bin_b) + this_weight * wb (pb + bin_b)))
                (map int [0 ..< nat nbins]) tab,
           partial_bin2 + nbins))"
  have step: "f bin_a (tab', pb2) =
      (\<lambda>i. tab' i + (if pb2 \<le> i \<and> i < pb2 + nbins then wa (pb + bin_a) * wb (pb + (i - pb2)) else 0),
       pb2 + nbins)" for bin_a tab' pb2
    using assms by (simp add: f_def inner_loop_entry)
  have "fold f (map int [0 ..< k]) (tab, 0)
     = (\<lambda>i. tab i + (if 0 \<le> i \<and> i < int k * nbins
                       then wa (pb + i div nbins) * wb (pb + i mod nbins) else 0),
        int k * nbins)"
  proof (induction k)
    case 0
    show ?case by (auto simp: fun_eq_iff)
  next
    case (Suc k)
    have "fold f (map int [0 ..< Suc k]) (tab, 0) = f (int k) (fold f (map int [0 ..< k]) (tab, 0))"
      by simp
    also have "\<dots> = f (int k) (\<lambda>i. tab i + (if 0 \<le> i \<and> i < int k * nbins
                       then wa (pb + i div nbins) * wb (pb + i mod nbins) else 0),
        int k * nbins)"
      unfolding Suc ..
    also have "\<dots> = (\<lambda>i. tab i + (if 0 \<le> i \<and> i < int (Suc k) * nbins
                       then wa (pb + i div nbins) * wb (pb + i mod nbins) else 0),
        int (Suc k) * nbins)"
    proof -
      have "(if 0 \<le> i \<and> i < int k * nbins
               then wa (pb + i div nbins) * wb (pb + i mod nbins) else 0)
          + (if int k * nbins \<le> i \<and> i < int k * nbins + nbins
               then wa (pb + int k) * wb (pb + (i - int k * nbins)) else 0)
          = (if 0 \<le> i \<and> i < int (Suc k) * nbins
               then wa (pb + i div nbins) * wb (pb + i mod nbins) else 0)" for i
      proof (cases "int k * nbins \<le> i \<and> i < int k * nbins + nbins")
        case True
        then have dm: "i div nbins = int k" "i mod nbins = i - int k * nbins"
          using div_mod_in_row [OF assms, of k i] by simp_all
        from True assms have nonneg: "0 \<le> i"
          by (meson mult_nonneg_nonneg of_nat_0_le_iff less_imp_le order_trans)
        from True have c1: "\<not> (0 \<le> i \<and> i < int k * nbins)"
          by simp
        from True nonneg have c2: "0 \<le> i \<and> i < int (Suc k) * nbins"
          by (simp add: algebra_simps)
        have v: "wb (pb + (i - int k * nbins)) = wb (pb + i mod nbins)"
          "wa (pb + int k) = wa (pb + i div nbins)"
          by (simp_all only: dm)
        from c1 have "(if 0 \<le> i \<and> i < int k * nbins
               then wa (pb + i div nbins) * wb (pb + i mod nbins) else 0) = (0 :: real)"
          by (rule if_not_P)
        moreover from True have "(if int k * nbins \<le> i \<and> i < int k * nbins + nbins
               then wa (pb + int k) * wb (pb + (i - int k * nbins)) else 0)
            = wa (pb + i div nbins) * wb (pb + i mod nbins)"
          unfolding v by (rule if_P)
        moreover from c2 have "(if 0 \<le> i \<and> i < int (Suc k) * nbins
               then wa (pb + i div nbins) * wb (pb + i mod nbins) else 0)
            = wa (pb + i div nbins) * wb (pb + i mod nbins)"
          by (rule if_P)
        ultimately show ?thesis
          by (simp only: add_0_left)
      next
        case False
        with assms show ?thesis by (auto simp: algebra_simps)
      qed
      then have fst_eq: "(\<lambda>i. tab i
            + (if 0 \<le> i \<and> i < int k * nbins
               then wa (pb + i div nbins) * wb (pb + i mod nbins) else 0)
            + (if int k * nbins \<le> i \<and> i < int k * nbins + nbins
               then wa (pb + int k) * wb (pb + (i - int k * nbins)) else 0))
          = (\<lambda>i. tab i + (if 0 \<le> i \<and> i < int (Suc k) * nbins
               then wa (pb + i div nbins) * wb (pb + i mod nbins) else 0))"
        by (simp only: add.assoc)
      have snd_eq: "int k * nbins + nbins = int (Suc k) * nbins"
        by (simp add: algebra_simps)
      show ?thesis
        by (simp only: step fst_eq) (simp only: snd_eq)
    qed
    finally show ?case .
  qed
  then show ?thesis by (simp add: f_def)
qed

lemma product_weights_loop_table:
  assumes "0 < nbins"
  shows "product_weights_loop nbins JKa JKb table =
     (\<lambda>i. table i + (\<Sum>x < nat (n_JK_filled JKa).
                        if 0 \<le> i \<and> i < nbins * nbins
                        then weights JKa (int x * nbins + i div nbins)
                               * weights JKb (int x * nbins + i mod nbins)
                        else 0))"
proof -
  define f where "f = (\<lambda>(x :: int) (tp :: (int \<Rightarrow> real) \<times> int).
    case tp of (tab, partial_bin) \<Rightarrow>
          (fst (fold
             (\<lambda>bin_a (tab, partial_bin2).
                (let this_weight = weights JKa (partial_bin + bin_a)
                 in fold
                      (\<lambda>bin_b tab.
                         tab(partial_bin2 + bin_b :=
                               tab (partial_bin2 + bin_b)
                                 + this_weight * weights JKb (partial_bin + bin_b)))
                      [0 .. nbins - 1] tab,
                 partial_bin2 + nbins))
             [0 .. nbins - 1] (tab, 0)),
           partial_bin + nbins))"
  from assms have nn: "int (nat nbins) = nbins"
    by simp
  have step: "f x (tab, pb) =
      (\<lambda>i. tab i + (if 0 \<le> i \<and> i < nbins * nbins
                      then weights JKa (pb + i div nbins) * weights JKb (pb + i mod nbins) else 0),
       pb + nbins)" for x tab pb
    unfolding f_def prod.case upto_from_0 [of nbins] middle_loop_entry [OF assms] nn
    by simp
  have "fold f (map int [0 ..< k]) (table, 0) =
     (\<lambda>i. table i + (\<Sum>x < k.
                        if 0 \<le> i \<and> i < nbins * nbins
                        then weights JKa (int x * nbins + i div nbins)
                               * weights JKb (int x * nbins + i mod nbins)
                        else 0),
      int k * nbins)" for k
  proof (induction k)
    case 0
    show ?case by simp
  next
    case (Suc k)
    have "fold f (map int [0 ..< Suc k]) (table, 0)
        = f (int k) (fold f (map int [0 ..< k]) (table, 0))"
      by simp
    also have "\<dots> = (\<lambda>i. table i + (\<Sum>x < Suc k.
                        if 0 \<le> i \<and> i < nbins * nbins
                        then weights JKa (int x * nbins + i div nbins)
                               * weights JKb (int x * nbins + i mod nbins)
                        else 0),
      int (Suc k) * nbins)"
      unfolding Suc step by (simp add: algebra_simps)
    finally show ?case .
  qed
  from this [of "nat (n_JK_filled JKa)"] show ?thesis
    by (simp add: product_weights_loop_def f_def upto_from_0 [of "n_JK_filled JKa"])
qed

lemma product_weights_loop_entry:
  assumes "0 \<le> b_a" "b_a < nbins" "0 \<le> b_b" "b_b < nbins"
  shows "product_weights_loop nbins JKa JKb table (b_a * nbins + b_b) =
     table (b_a * nbins + b_b)
       + (\<Sum>reg < nat (n_JK_filled JKa).
            weights JKa (int reg * nbins + b_a) * weights JKb (int reg * nbins + b_b))"
proof -
  from assms have pos: "0 < nbins"
    by simp
  from assms have dm: "b_b div nbins = 0" "b_b mod nbins = b_b"
    "(b_a * nbins + b_b) div nbins = b_a" "(b_a * nbins + b_b) mod nbins = b_b"
    by simp_all
  from assms have lo: "0 \<le> b_a * nbins + b_b"
    by simp
  from assms have "b_a * nbins + b_b < b_a * nbins + nbins"
    by simp
  also from assms have "\<dots> = (b_a + 1) * nbins"
    by (simp add: algebra_simps)
  also from assms have "\<dots> \<le> nbins * nbins"
    by (intro mult_right_mono) simp_all
  finally have hi: "b_a * nbins + b_b < nbins * nbins" .
  show ?thesis
    by (simp add: product_weights_loop_table [OF pos] dm lo hi)
qed

text \<open>
  Claim C2 says that the new table holds, at row \<open>b_a\<close> and column \<open>b_b\<close>, the sum over the
  filled regions of the products of the weights. The loops add these products to what the
  new block of memory holds (\<open>product_weights_loop_entry\<close>), and nothing clears the block.
  With one bin, one filled region, all weights one and a block holding five, the entry ends
  as six, where the sum of the products is one.
\<close>

theorem product_weights_on_uncleared_memory:
  "product_weights12_34 1 1 2 2 1 ex_JK ex_JK ex_fresh 0 = 6
 \<and> n_JK_filled ex_JK = 1
 \<and> weights ex_JK 0 * weights ex_JK 0 = 1"
  by (simp add: product_weights12_34_def product_weights_loop_def ex_JK_def ex_fresh_def)

subsection \<open>Runs from the same seed\<close>


















end
